theory Spec2Isabelle
  imports Complex_Main "HOL-Library.Sublist"
begin

section \<open>Strings\<close>

text \<open>
  A JavaScript string is modelled by the list of its code units, restricted to code
  units below 256 (ASCII and the Latin-1 supplement), so \<open>length\<close> is the source's
  \<open>.length\<close>. The functions below are the string methods the repository calls.
\<close>

definition code :: "char \<Rightarrow> int" where
  "code c = of_char c"

definition is_space :: "char \<Rightarrow> bool" where
  \<comment> \<open>the regular expression class \<open>\s\<close> and the characters \<open>trim\<close> removes:
      TAB, LF, VT, FF, CR, SPACE and NBSP\<close>
  "is_space c = (let n = code c in (9 \<le> n \<and> n \<le> 13) \<or> n = 32 \<or> n = 160)"

definition is_line_terminator :: "char \<Rightarrow> bool" where
  \<comment> \<open>the characters \<open>.\<close> does not match and at which \<open>^\<close> and \<open>$\<close> match under the m flag\<close>
  "is_line_terminator c = (let n = code c in n = 10 \<or> n = 13)"

definition is_upper :: "char \<Rightarrow> bool" where
  \<comment> \<open>the class \<open>[A-Z]\<close>\<close>
  "is_upper c = (let n = code c in 65 \<le> n \<and> n \<le> 90)"

definition lower_char :: "char \<Rightarrow> char" where
  "lower_char c =
     (let n = code c
      in if (65 \<le> n \<and> n \<le> 90) \<or> (192 \<le> n \<and> n \<le> 222 \<and> n \<noteq> 215)
         then char_of (nat (n + 32)) else c)"

definition toLowerCase :: "string \<Rightarrow> string" where
  "toLowerCase s = map lower_char s"

definition trim :: "string \<Rightarrow> string" where
  "trim s = rev (dropWhile is_space (rev (dropWhile is_space s)))"

fun startsWith :: "string \<Rightarrow> string \<Rightarrow> bool" where
  "startsWith s [] = True"
| "startsWith [] (d # t) = False"
| "startsWith (c # s) (d # t) = (c = d \<and> startsWith s t)"

fun str_includes :: "string \<Rightarrow> string \<Rightarrow> bool" where
  \<comment> \<open>\<open>s.includes(t)\<close>: \<open>t\<close> occurs in \<open>s\<close> as a contiguous substring\<close>
  "str_includes [] t = (t = [])"
| "str_includes (c # s) t = (startsWith (c # s) t \<or> str_includes s t)"

fun indexOf_from :: "nat \<Rightarrow> string \<Rightarrow> string \<Rightarrow> nat option" where
  "indexOf_from i [] t = (if t = [] then Some i else None)"
| "indexOf_from i (c # s) t =
     (if startsWith (c # s) t then Some i else indexOf_from (Suc i) s t)"

definition indexOf :: "string \<Rightarrow> string \<Rightarrow> nat option" where
  \<comment> \<open>\<open>s.indexOf(t)\<close>, with \<open>None\<close> for the source's \<open>-1\<close>\<close>
  "indexOf s t = indexOf_from 0 s t"

definition substring :: "string \<Rightarrow> nat \<Rightarrow> nat \<Rightarrow> string" where
  \<comment> \<open>\<open>s.substring(a, b)\<close> for \<open>a \<le> b\<close> (the only use in the source)\<close>
  "substring s a b = take (b - a) (drop a s)"

definition join :: "string \<Rightarrow> string list \<Rightarrow> string" where
  \<comment> \<open>\<open>xs.join(sep)\<close>\<close>
  "join sep xs = (case xs of [] \<Rightarrow> [] | x # r \<Rightarrow> foldl (\<lambda>acc y. acc @ sep @ y) x r)"

definition set_add :: "'a list \<Rightarrow> 'a \<Rightarrow> 'a list" where
  \<comment> \<open>\<open>Set.prototype.add\<close> on a set kept in insertion order\<close>
  "set_add acc x = (if x \<in> set acc then acc else acc @ [x])"

definition unique :: "'a list \<Rightarrow> 'a list" where
  \<comment> \<open>\<open>[...new Set(xs)]\<close>: the first occurrence of each element, in order\<close>
  "unique xs = foldl set_add [] xs"

section \<open>Regular expressions\<close>

text \<open>
  Every regular expression of the chunker and of the query code is an alternation of
  sequences of greedily repeated character classes, possibly anchored with \<open>^\<close> and
  \<open>$\<close> (under the m flag). The matcher below is the backtracking matcher of the
  language restricted to this shape: a repetition first takes as many characters as
  it can, and gives them back one at a time while the rest of the sequence fails.
\<close>

datatype item =
    Rep "char \<Rightarrow> bool" nat "nat option"  \<comment> \<open>class, minimal count, maximal count\<close>
  | Eol                                     \<comment> \<open>\<open>$\<close> under the m flag\<close>

record regex =
  anchored :: bool            \<comment> \<open>the expression starts with \<open>^\<close> (under the m flag)\<close>
  alternatives :: "item list list"

fun backtrack :: "(nat \<Rightarrow> 'a option) \<Rightarrow> nat \<Rightarrow> nat \<Rightarrow> 'a option" where
  "backtrack f lo k =
     (case f k of
        Some r \<Rightarrow> Some r
      | None \<Rightarrow> if lo < k then backtrack f lo (k - 1) else None)"

declare backtrack.simps [simp del]

fun match_items :: "item list \<Rightarrow> string \<Rightarrow> nat list option" where
  \<comment> \<open>the number of characters each item of the sequence takes, in the first successful
      match of the sequence at the start of the string\<close>
  "match_items [] s = Some []"
| "match_items (Eol # its) s =
     (if s = [] \<or> is_line_terminator (hd s)
      then map_option (Cons 0) (match_items its s) else None)"
| "match_items (Rep P lo hi # its) s =
     (let avail = length (takeWhile P s);
          n = (case hi of None \<Rightarrow> avail | Some h \<Rightarrow> min h avail)
      in if n < lo then None
         else backtrack (\<lambda>k. map_option (Cons k) (match_items its (drop k s))) lo n)"

fun match_alts :: "nat \<Rightarrow> item list list \<Rightarrow> string \<Rightarrow> (nat \<times> nat list) option" where
  \<comment> \<open>the first alternative that matches, with its number\<close>
  "match_alts i [] s = None"
| "match_alts i (a # as) s =
     (case match_items a s of
        Some ls \<Rightarrow> Some (i, ls)
      | None \<Rightarrow> match_alts (Suc i) as s)"

definition match_at :: "regex \<Rightarrow> char option \<Rightarrow> string \<Rightarrow> (nat \<times> nat list) option" where
  \<comment> \<open>a match that starts exactly here; \<open>prev\<close> is the character before this position\<close>
  "match_at r prev s =
     (if anchored r \<and> \<not> (case prev of None \<Rightarrow> True | Some c \<Rightarrow> is_line_terminator c)
      then None else match_alts 0 (alternatives r) s)"

function split_scan :: "regex \<Rightarrow> string \<Rightarrow> char option \<Rightarrow> string \<Rightarrow> string list" where
  \<comment> \<open>\<open>s.split(r)\<close>, for an expression without groups that matches no empty string:
      \<open>acc\<close> is the piece since the last separator\<close>
  "split_scan r acc prev [] = [acc]"
| "split_scan r acc prev (c # s) =
     (case match_at r prev (c # s) of
        None \<Rightarrow> split_scan r (acc @ [c]) (Some c) s
      | Some (i, ls) \<Rightarrow>
          if sum_list ls = 0 then split_scan r (acc @ [c]) (Some c) s
          else acc # split_scan r [] (Some (last (take (sum_list ls) (c # s))))
                       (drop (sum_list ls) (c # s)))"
  by pat_completeness auto
termination
  by (relation "measure (\<lambda>(r, acc, prev, s). length s)") (auto simp del: sum_list_eq_0_iff)

definition split :: "regex \<Rightarrow> string \<Rightarrow> string list" where
  "split r s = split_scan r [] None s"

function match_scan :: "regex \<Rightarrow> char option \<Rightarrow> string \<Rightarrow> string list" where
  \<comment> \<open>the successive matches of a g-flagged expression that matches no empty string\<close>
  "match_scan r prev [] = []"
| "match_scan r prev (c # s) =
     (case match_at r prev (c # s) of
        None \<Rightarrow> match_scan r (Some c) s
      | Some (i, ls) \<Rightarrow>
          if sum_list ls = 0 then match_scan r (Some c) s
          else take (sum_list ls) (c # s)
               # match_scan r (Some (last (take (sum_list ls) (c # s))))
                   (drop (sum_list ls) (c # s)))"
  by pat_completeness auto
termination
  by (relation "measure (\<lambda>(r, prev, s). length s)") (auto simp del: sum_list_eq_0_iff)

definition match_all :: "regex \<Rightarrow> string \<Rightarrow> string list option" where
  \<comment> \<open>\<open>s.match(r)\<close> with the g flag: \<open>None\<close> is the source's \<open>null\<close>\<close>
  "match_all r s = (case match_scan r None s of [] \<Rightarrow> None | ms \<Rightarrow> Some ms)"

definition whitespace_re :: regex where
  \<comment> \<open>\<open>/\s+/\<close>\<close>
  "whitespace_re = \<lparr>anchored = False, alternatives = [ [Rep is_space 1 None] ]\<rparr>"

definition paragraph_re :: regex where
  \<comment> \<open>\<open>/\n\n+/\<close>\<close>
  "paragraph_re = \<lparr>anchored = False,
     alternatives = [ [Rep (\<lambda>c. code c = 10) 1 (Some 1), Rep (\<lambda>c. code c = 10) 1 None] ]\<rparr>"

definition is_terminal :: "char \<Rightarrow> bool" where
  \<comment> \<open>the class \<open>[.!?]\<close>\<close>
  "is_terminal c = (let n = code c in n = 46 \<or> n = 33 \<or> n = 63)"

definition sentence_re :: regex where
  \<comment> \<open>\<open>/[^.!?]+[.!?]+/g\<close>\<close>
  "sentence_re = \<lparr>anchored = False,
     alternatives = [ [Rep (\<lambda>c. \<not> is_terminal c) 1 None, Rep is_terminal 1 None] ]\<rparr>"

definition headingPattern :: regex where
  \<comment> \<open>\<open>/^(?:#{1,3}\s+(.+)|([A-Z][A-Z\s]{5,}[A-Z]))$/gm\<close>\<close>
  "headingPattern = \<lparr>anchored = True,
     alternatives =
       [ [Rep (\<lambda>c. code c = 35) 1 (Some 3), Rep is_space 1 None,
         Rep (\<lambda>c. \<not> is_line_terminator c) 1 None, Eol],
        [Rep is_upper 1 (Some 1), Rep (\<lambda>c. is_upper c \<or> is_space c) 5 None,
         Rep is_upper 1 (Some 1), Eol] ]\<rparr>"

section \<open>Intent detection and query expansion\<close>

datatype Confidence = high | medium | low

record IntentPattern =
  pattern_keywords :: "string list"
  pattern_category :: string
  pattern_subcategory :: string
  pattern_weight :: nat

record Score =
  score_weight :: nat
  score_category :: string
  score_subcategory :: string

record DetectedIntent =
  intent_category :: "string option"
  intent_subcategory :: "string option"
  intent_confidence :: Confidence
  matchedPatterns :: "string list"
  totalWeight :: nat

record QueryExpansion =
  expandedTerms :: "string list"
  detectedConcepts :: "string list"
  suggestedCategory :: "string option"
  expansion_confidence :: Confidence
  reasoning :: string

definition pat :: "string list \<Rightarrow> string \<Rightarrow> string \<Rightarrow> nat \<Rightarrow> IntentPattern" where
  "pat ks c s w = \<lparr>pattern_keywords = ks, pattern_category = c, pattern_subcategory = s, pattern_weight = w\<rparr>"

definition INTENT_PATTERNS :: "IntentPattern list" where
  "INTENT_PATTERNS = [
    pat [''apex'', ''trigger'', ''class'', ''soql in apex''] ''core_platform'' ''apex'' 10,
    pat [''batch apex'', ''queueable'', ''schedulable'', ''future method''] ''core_platform'' ''apex'' 12,
    pat [''apex test'', ''test class'', ''testmethod'', ''test.starttest''] ''core_platform'' ''apex'' 10,
    pat [''apex governor'', ''limits'', ''governor limits''] ''core_platform'' ''apex'' 10,
    pat [''lwc'', ''lightning web component'', ''web component''] ''core_platform'' ''lightning'' 10,
    pat [''@wire'', ''@api'', ''@track'', ''lightning-''] ''core_platform'' ''lightning'' 10,
    pat [''lwc lifecycle'', ''connectedcallback'', ''renderedcallback''] ''core_platform'' ''lightning'' 12,
    pat [''aura'', ''aura component'', ''lightning component'', ''component bundle''] ''core_platform'' ''lightning'' 8,
    pat [''visualforce'', ''apex:page'', ''apex:form'', ''vf page''] ''core_platform'' ''visualforce'' 10,
    pat [''soql'', ''select from'', ''where clause'', ''relationship query''] ''core_platform'' ''soql_sosl'' 10,
    pat [''sosl'', ''find'', ''search query''] ''core_platform'' ''soql_sosl'' 10,
    pat [''formula'', ''formula field'', ''validation rule'', ''workflow rule''] ''core_platform'' ''formulas'' 8,
    pat [''rest api'', ''restful'', ''/services/data/'', ''sobject''] ''apis'' ''rest_api'' 10,
    pat [''composite api'', ''composite request'', ''batch request''] ''apis'' ''rest_api'' 12,
    pat [''soap api'', ''enterprise wsdl'', ''partner wsdl''] ''apis'' ''soap_api'' 10,
    pat [''metadata api'', ''deploy'', ''retrieve'', ''package.xml''] ''apis'' ''metadata_api'' 10,
    pat [''bulk api'', ''bulk 2.0'', ''bulk data'', ''data loader''] ''apis'' ''bulk_api'' 10,
    pat [''streaming api'', ''pushtopic'', ''platform event'', ''cdc'', ''change data capture''] ''apis'' ''streaming_api'' 10,
    pat [''tooling api'', ''execute anonymous'', ''debug log'', ''apextestrun''] ''apis'' ''tooling_api'' 10,
    pat [''chatter api'', ''connect api'', ''feed item''] ''apis'' ''specialized_apis'' 8,
    pat [''analytics api'', ''reports api'', ''dashboard api'', ''wave''] ''apis'' ''specialized_apis'' 8,
    pat [''sfdx'', ''sf cli'', ''salesforce cli'', ''dx''] ''dev_tools'' ''sfdx_cli'' 10,
    pat [''scratch org'', ''dev hub'', ''source push'', ''source pull''] ''dev_tools'' ''sfdx_cli'' 10,
    pat [''package'', ''unlocked package'', ''2gp'', ''managed package''] ''dev_tools'' ''packaging'' 10,
    pat [''isvforce'', ''appexchange'', ''security review''] ''dev_tools'' ''packaging'' 8,
    pat [''devops'', ''ci/cd'', ''deployment'', ''git'', ''version control''] ''dev_tools'' ''devops'' 8,
    pat [''mobile sdk'', ''salesforce mobile'', ''mobile app''] ''dev_tools'' ''mobile_sdk'' 8,
    pat [''security'', ''permission'', ''sharing'', ''fls'', ''field level security''] ''security'' ''security'' 10,
    pat [''oauth'', ''connected app'', ''jwt'', ''authentication''] ''security'' ''security'' 10,
    pat [''encryption'', ''shield'', ''platform encryption''] ''security'' ''security'' 10,
    pat [''integration'', ''callout'', ''external service'', ''http''] ''integration'' ''integration'' 8,
    pat [''mulesoft'', ''anypoint'', ''heroku''] ''integration'' ''integration'' 8,
    pat [''external object'', ''odata'', ''salesforce connect''] ''integration'' ''integration'' 8,
    pat [''sales cloud'', ''opportunity'', ''lead'', ''account'', ''contact''] ''clouds'' ''sales_cloud'' 6,
    pat [''service cloud'', ''case'', ''knowledge'', ''omni-channel''] ''clouds'' ''service_cloud'' 6,
    pat [''experience cloud'', ''community'', ''site'', ''portal''] ''clouds'' ''experience_cloud'' 8,
    pat [''marketing cloud'', ''journey builder'', ''email studio''] ''clouds'' ''marketing_cloud'' 8,
    pat [''crm analytics'', ''tableau crm'', ''einstein analytics''] ''clouds'' ''analytics_cloud'' 8,
    pat [''best practice'', ''pattern'', ''anti-pattern'', ''design pattern''] ''best_practices'' ''best_practices'' 6,
    pat [''performance'', ''optimization'', ''bulkification''] ''best_practices'' ''best_practices'' 6,
    pat [''release notes'', ''new feature'', ''summer'', ''winter'', ''spring''] ''release_notes'' ''release_notes'' 8
  ]"

definition SYNONYMS :: "(string \<times> string list) list" where
  "SYNONYMS = [
    (''lwc'', [''lightning web component'', ''web component'', ''lightning-'']),
    (''apex'', [''salesforce apex'', ''apex class'', ''apex trigger'']),
    (''trigger'', [''apex trigger'', ''before trigger'', ''after trigger'']),
    (''soql'', [''salesforce query'', ''select from'', ''query'']),
    (''rest api'', [''restful api'', ''rest endpoint'', ''/services/data/'']),
    (''bulk api'', [''bulk 2.0'', ''bulk data load'', ''data loader api'']),
    (''permission'', [''permission set'', ''profile'', ''sharing rules'']),
    (''deploy'', [''deployment'', ''change set'', ''metadata deploy'']),
    (''test'', [''test class'', ''unit test'', ''apex test'', ''testmethod'']),
    (''callout'', [''http callout'', ''external callout'', ''web service'']),
    (''authentication'', [''oauth'', ''login'', ''sso'', ''connected app'']),
    (''governor limits'', [''limits'', ''dml limits'', ''soql limits''])
  ]"

definition matchedKeywords :: "string \<Rightarrow> IntentPattern \<Rightarrow> string list" where
  \<comment> \<open>\<open>pattern.keywords.filter(kw => queryLower.includes(kw.toLowerCase()))\<close>\<close>
  "matchedKeywords queryLower p = filter (\<lambda>kw. str_includes queryLower (toLowerCase kw)) (pattern_keywords p)"

definition scores_add :: "(string \<times> Score) list \<Rightarrow> IntentPattern \<Rightarrow> nat \<Rightarrow> (string \<times> Score) list" where
  \<comment> \<open>\<open>scores.get(key) || {weight: 0, ...}\<close>, \<open>existing.weight += w\<close>, \<open>scores.set(key, existing)\<close>
      on a Map in insertion order: an existing key keeps its place\<close>
  "scores_add scores p w =
     (let key = pattern_category p @ '':'' @ pattern_subcategory p
      in case map_of scores key of
           Some existing \<Rightarrow>
             map (\<lambda>(k, v). if k = key then (k, v\<lparr>score_weight := score_weight v + w\<rparr>) else (k, v)) scores
         | None \<Rightarrow>
             scores @ [(key, \<lparr>score_weight = w, score_category = pattern_category p,
                             score_subcategory = pattern_subcategory p\<rparr>)])"

definition scan_pattern ::
  "string \<Rightarrow> (string \<times> Score) list \<times> string list \<times> nat \<Rightarrow> IntentPattern
     \<Rightarrow> (string \<times> Score) list \<times> string list \<times> nat" where
  \<comment> \<open>one iteration of the loop over \<open>INTENT_PATTERNS\<close>\<close>
  "scan_pattern queryLower st p =
     (case st of (scores, matched, tw) \<Rightarrow>
        let mk = matchedKeywords queryLower p
        in if length mk > 0
           then (scores_add scores p (pattern_weight p * length mk),
                 matched @ mk,
                 tw + pattern_weight p * length mk)
           else (scores, matched, tw))"

fun find_best :: "Score option \<Rightarrow> Score list \<Rightarrow> Score option" where
  \<comment> \<open>the loop over \<open>scores.values()\<close>: a later pair wins only on a strictly greater weight\<close>
  "find_best best [] = best"
| "find_best best (s # ss) =
     find_best (case best of None \<Rightarrow> Some s
                | Some b \<Rightarrow> if score_weight s > score_weight b then Some s else Some b) ss"

definition confidence_of :: "nat \<Rightarrow> Confidence" where
  "confidence_of w = (if w \<ge> 15 then high else if w \<ge> 7 then medium else low)"

definition detectIntent :: "string \<Rightarrow> DetectedIntent" where
  "detectIntent query =
     (let queryLower = toLowerCase query
      in case foldl (scan_pattern queryLower) ([], [], 0) INTENT_PATTERNS of
           (scores, matched, tw) \<Rightarrow>
             let bestMatch = find_best None (map snd scores)
             in \<lparr>intent_category = map_option score_category bestMatch,
                 intent_subcategory = map_option score_subcategory bestMatch,
                 intent_confidence = confidence_of tw,
                 matchedPatterns = unique matched,
                 totalWeight = tw\<rparr>)"

definition categoryLabels :: "(string \<times> string) list" where
  "categoryLabels = [
    (''core_platform'', ''Core Platform Development''),
    (''apis'', ''API Reference''),
    (''dev_tools'', ''Development Tools''),
    (''clouds'', ''Cloud Products''),
    (''security'', ''Security & Permissions''),
    (''integration'', ''Integration Patterns''),
    (''best_practices'', ''Best Practices''),
    (''release_notes'', ''Release Notes'')]"

definition subcategoryLabels :: "(string \<times> string) list" where
  "subcategoryLabels = [
    (''apex'', ''Apex Development''),
    (''lightning'', ''Lightning (LWC/Aura)''),
    (''visualforce'', ''Visualforce''),
    (''soql_sosl'', ''SOQL/SOSL Queries''),
    (''formulas'', ''Formulas''),
    (''rest_api'', ''REST API''),
    (''soap_api'', ''SOAP API''),
    (''metadata_api'', ''Metadata API''),
    (''bulk_api'', ''Bulk API''),
    (''streaming_api'', ''Streaming API''),
    (''tooling_api'', ''Tooling API''),
    (''specialized_apis'', ''Specialized APIs''),
    (''sfdx_cli'', ''Salesforce CLI''),
    (''packaging'', ''Packaging''),
    (''devops'', ''DevOps''),
    (''mobile_sdk'', ''Mobile SDK''),
    (''security'', ''Security''),
    (''integration'', ''Integration''),
    (''sales_cloud'', ''Sales Cloud''),
    (''service_cloud'', ''Service Cloud''),
    (''experience_cloud'', ''Experience Cloud''),
    (''marketing_cloud'', ''Marketing Cloud''),
    (''analytics_cloud'', ''CRM Analytics''),
    (''best_practices'', ''Best Practices''),
    (''release_notes'', ''Release Notes'')]"

definition label_or :: "(string \<times> string) list \<Rightarrow> string \<Rightarrow> string" where
  \<comment> \<open>\<open>labels[k] || k\<close>\<close>
  "label_or labels k = (case map_of labels k of Some l \<Rightarrow> (if l = [] then k else l) | None \<Rightarrow> k)"

definition describeIntent :: "DetectedIntent \<Rightarrow> string" where
  "describeIntent intent =
     (case intent_category intent of
        None \<Rightarrow> ''General Salesforce documentation search''
      | Some c \<Rightarrow>
          if c = [] then ''General Salesforce documentation search''
          else
            let categoryLabel = label_or categoryLabels c;
                subcategoryLabel =
                  (case intent_subcategory intent of
                     None \<Rightarrow> []
                   | Some s \<Rightarrow> if s = [] then [] else label_or subcategoryLabels s)
            in if subcategoryLabel \<noteq> [] \<and> subcategoryLabel \<noteq> categoryLabel
               then categoryLabel @ '' - '' @ subcategoryLabel
               else categoryLabel)"

definition getCategoryTerms :: "string \<Rightarrow> string list" where
  "getCategoryTerms subcategory =
     (case map_of [
        (''apex'', [''trigger'', ''class'', ''test'', ''governor limits'', ''batch'', ''future'']),
        (''lightning'', [''lwc'', ''@wire'', ''@api'', ''component'', ''aura'', ''lightning-'']),
        (''visualforce'', [''apex:page'', ''controller'', ''extension'', ''apex:form'']),
        (''soql_sosl'', [''SELECT'', ''FROM'', ''WHERE'', ''relationship'', ''aggregate'']),
        (''rest_api'', [''endpoint'', ''sobject'', ''composite'', ''JSON'', ''HTTP'']),
        (''bulk_api'', [''job'', ''batch'', ''CSV'', ''data load'']),
        (''metadata_api'', [''package.xml'', ''deploy'', ''retrieve'', ''manifest'']),
        (''streaming_api'', [''PushTopic'', ''CDC'', ''Platform Event'', ''subscribe'']),
        (''tooling_api'', [''ApexTestRun'', ''debug'', ''execute anonymous'']),
        (''sfdx_cli'', [''sf'', ''scratch org'', ''source push'', ''dev hub'']),
        (''security'', [''permission set'', ''sharing'', ''FLS'', ''profile'', ''oauth'']),
        (''integration'', [''callout'', ''HTTP'', ''external service'', ''named credential''])
      ] subcategory of Some ts \<Rightarrow> ts | None \<Rightarrow> [])"

definition buildReasoning :: "string \<Rightarrow> DetectedIntent \<Rightarrow> string list \<Rightarrow> string" where
  "buildReasoning query intent concepts =
     (let parts1 = (if length concepts > 0
                    then [''Detected concepts: '' @ join '', '' (take 5 concepts)] else []);
          parts2 = (case intent_category intent of
                      None \<Rightarrow> []
                    | Some c \<Rightarrow> if c = [] then [] else [''Suggested category: '' @ c]);
          parts3 = (if intent_confidence intent = high
                    then [''High confidence match - specific documentation area identified'']
                    else if intent_confidence intent = medium
                    then [''Medium confidence - multiple possible areas detected'']
                    else [''Low confidence - broad search recommended'']);
          joined = join ''. '' (parts1 @ parts2 @ parts3)
      in if joined = [] then ''General search across all documentation'' else joined)"

definition expandQueryToKeywords :: "string \<Rightarrow> string option \<Rightarrow> QueryExpansion" where
  "expandQueryToKeywords query context =
     (let intent = detectIntent query;
          concepts = matchedPatterns intent;
          synonyms = concat (map (\<lambda>concept. case map_of SYNONYMS (toLowerCase concept) of
                                                 Some syns \<Rightarrow> syns | None \<Rightarrow> []) concepts);
          queryTerms = filter (\<lambda>t. length t > 2) (split whitespace_re query);
          contextTerms = (case context of
                            None \<Rightarrow> []
                          | Some ctx \<Rightarrow>
                              if ctx = [] then []
                              else take 5 (filter (\<lambda>t. length t > 2) (split whitespace_re ctx)));
          categoryTerms = (case intent_subcategory intent of
                             None \<Rightarrow> []
                           | Some sub \<Rightarrow> if sub = [] then [] else getCategoryTerms sub);
          terms = synonyms @ queryTerms @ contextTerms @ categoryTerms
      in \<lparr>expandedTerms = take 20 (unique terms),
          detectedConcepts = unique concepts,
          suggestedCategory = intent_category intent,
          expansion_confidence = intent_confidence intent,
          reasoning = buildReasoning query intent concepts\<rparr>)"

section \<open>Text chunker\<close>

text \<open>
  The sizes of the chunking options are character counts, modelled as natural numbers;
  an absent option takes the value of \<open>DEFAULT_OPTIONS\<close>.
\<close>

record ChunkOptions =
  maxChunkSize :: "nat option"
  overlapSize :: "nat option"

record Chunk =
  index :: nat
  content :: string
  sectionTitle :: "string option"
  startChar :: nat
  endChar :: nat

record Section =
  title :: "string option"
  section_content :: string

definition DEFAULT_maxChunkSize :: nat where
  "DEFAULT_maxChunkSize = 1500"

definition DEFAULT_overlapSize :: nat where
  "DEFAULT_overlapSize = 200"

definition heading_title :: "string \<Rightarrow> nat \<times> nat list \<Rightarrow> string" where
  \<comment> \<open>\<open>(match[1] || match[2]).trim()\<close>: group 1 is the third item of the first
      alternative, group 2 the whole of the second alternative\<close>
  "heading_title s m =
     (case m of (alt, ls) \<Rightarrow>
        if alt = 0 then trim (take (ls ! 2) (drop (ls ! 0 + ls ! 1) s))
        else trim (take (sum_list ls) s))"

definition section_of :: "string option \<Rightarrow> string \<Rightarrow> Section list" where
  \<comment> \<open>\<open>content = text.substring(lastIndex, end).trim()\<close>, kept when longer than 50\<close>
  "section_of lastTitle piece =
     (let c = trim piece
      in if length c > 50 then [\<lparr>title = lastTitle, section_content = c\<rparr>] else [])"

function sections_scan :: "string option \<Rightarrow> string \<Rightarrow> char option \<Rightarrow> string \<Rightarrow> Section list" where
  \<comment> \<open>the \<open>exec\<close> loop of \<open>splitBySections\<close> and its final section: \<open>acc\<close> is the text
      from \<open>lastIndex\<close> to the current position\<close>
  "sections_scan lastTitle acc prev [] =
     (if acc \<noteq> [] then section_of lastTitle acc else [])"
| "sections_scan lastTitle acc prev (c # s) =
     (case match_at headingPattern prev (c # s) of
        None \<Rightarrow> sections_scan lastTitle (acc @ [c]) (Some c) s
      | Some m \<Rightarrow>
          if sum_list (snd m) = 0 then sections_scan lastTitle (acc @ [c]) (Some c) s
          else (if acc \<noteq> [] then section_of lastTitle acc else [])
               @ sections_scan (Some (heading_title (c # s) m)) []
                   (Some (last (take (sum_list (snd m)) (c # s))))
                   (drop (sum_list (snd m)) (c # s)))"
  by pat_completeness auto
termination
  by (relation "measure (\<lambda>(t, acc, prev, s). length s)") (auto simp del: sum_list_eq_0_iff)

definition splitBySections :: "string \<Rightarrow> Section list" where
  "splitBySections text =
     (let sections = sections_scan None [] None text
      in if length sections = 0 then [\<lparr>title = None, section_content = text\<rparr>] else sections)"

definition push_trimmed :: "string list \<Rightarrow> string \<Rightarrow> string list" where
  \<comment> \<open>\<open>if (currentChunk.length > 0) chunks.push(currentChunk.trim())\<close>\<close>
  "push_trimmed chunks currentChunk =
     (if length currentChunk > 0 then chunks @ [trim currentChunk] else chunks)"

definition word_step :: "nat \<Rightarrow> string list \<times> string \<Rightarrow> string \<Rightarrow> string list \<times> string" where
  "word_step maxSize st word =
     (case st of (chunks, currentChunk) \<Rightarrow>
        if length currentChunk + length word > maxSize
        then (chunks @ [trim currentChunk], word)
        else (chunks, currentChunk @ (if currentChunk \<noteq> [] then '' '' else []) @ word))"

definition sentence_step :: "nat \<Rightarrow> string list \<times> string \<Rightarrow> string \<Rightarrow> string list \<times> string" where
  "sentence_step maxSize st sentence =
     (case st of (chunks, currentChunk) \<Rightarrow>
        if length currentChunk + length sentence > maxSize
        then (let chunks1 = push_trimmed chunks currentChunk
              in if length sentence > maxSize
                 then foldl (word_step maxSize) (chunks1, []) (split whitespace_re sentence)
                 else (chunks1, sentence))
        else (chunks, currentChunk @ sentence))"

definition splitLongParagraph :: "string \<Rightarrow> nat \<Rightarrow> string list" where
  "splitLongParagraph para maxSize =
     (let sentences = (case match_all sentence_re para of None \<Rightarrow> [para] | Some ms \<Rightarrow> ms)
      in case foldl (sentence_step maxSize) ([], []) sentences of
           (chunks, currentChunk) \<Rightarrow> push_trimmed chunks currentChunk)"

definition paragraph_step :: "nat \<Rightarrow> string list \<times> string \<Rightarrow> string \<Rightarrow> string list \<times> string" where
  "paragraph_step maxSize st para =
     (case st of (chunks, currentChunk) \<Rightarrow>
        if length currentChunk + length para > maxSize
        then (let chunks1 = push_trimmed chunks currentChunk
              in if length para > maxSize
                 then (let subChunks = splitLongParagraph para maxSize
                       in (chunks1 @ butlast subChunks,
                           if subChunks = [] then [] else last subChunks))
                 else (chunks1, para))
        else (chunks, currentChunk @ (if currentChunk \<noteq> [] then [CHR 10, CHR 10] else []) @ para))"

definition with_overlap :: "nat \<Rightarrow> string \<Rightarrow> string \<Rightarrow> string" where
  \<comment> \<open>the body of the loop of \<open>addOverlap\<close> for \<open>i > 0\<close>\<close>
  "with_overlap ov prevChunk chunk =
     (let overlap = drop (length prevChunk - ov) prevChunk
      in case indexOf overlap '' '' of
           None \<Rightarrow> chunk
         | Some lastSpace \<Rightarrow>
             if lastSpace > 0 then drop (lastSpace + 1) overlap @ '' [...] '' @ chunk
             else chunk)"

fun overlap_rest :: "nat \<Rightarrow> string \<Rightarrow> string list \<Rightarrow> string list" where
  "overlap_rest ov prevChunk [] = []"
| "overlap_rest ov prevChunk (chunk # chunks) =
     with_overlap ov prevChunk chunk # overlap_rest ov chunk chunks"

definition addOverlap :: "string list \<Rightarrow> nat \<Rightarrow> string list" where
  "addOverlap chunks ov =
     (if length chunks \<le> 1 \<or> ov = 0 then chunks
      else (case chunks of [] \<Rightarrow> [] | c # cs \<Rightarrow> c # overlap_rest ov c cs))"

definition chunkSection :: "string \<Rightarrow> nat \<Rightarrow> nat \<Rightarrow> string list" where
  "chunkSection text maxSize ov =
     (if length text \<le> maxSize then [text]
      else case foldl (paragraph_step maxSize) ([], []) (split paragraph_re text) of
             (chunks, currentChunk) \<Rightarrow> addOverlap (push_trimmed chunks currentChunk) ov)"

definition section_chunks :: "nat \<Rightarrow> nat \<Rightarrow> Section \<Rightarrow> (string \<times> string option) list" where
  \<comment> \<open>the inner loop of \<open>chunkText\<close>: the trimmed chunks of one section with its title\<close>
  "section_chunks maxSize ov sec =
     map (\<lambda>c. (trim c, title sec)) (chunkSection (section_content sec) maxSize ov)"

definition chunkText :: "string \<Rightarrow> ChunkOptions \<Rightarrow> Chunk list" where
  "chunkText text options =
     (let maxSize = (case maxChunkSize options of None \<Rightarrow> DEFAULT_maxChunkSize | Some m \<Rightarrow> m);
          ov = (case overlapSize options of None \<Rightarrow> DEFAULT_overlapSize | Some v \<Rightarrow> v);
          pieces = concat (map (section_chunks maxSize ov) (splitBySections text))
      in map (\<lambda>(i, (c, t)). \<lparr>index = i, content = c, sectionTitle = t, startChar = 0, endChar = 0\<rparr>)
             (enumerate 0 pieces))"

section \<open>Retrieval engine\<close>

subsection \<open>The store\<close>

text \<open>
  The store is the SQLite database behind \<open>sql.js\<close>. Its two tables are lists of rows
  in insertion order; a database without schema (a fresh \<open>new Database()\<close>) is \<open>None\<close>,
  and preparing a statement on it throws. A NULL column is \<open>None\<close>. The \<open>keywords\<close>
  column holds the JSON text the index builder wrote with \<open>JSON.stringify\<close>; it is
  modelled by the list it parses to.
\<close>

record DocRow =
  doc_id :: nat
  file_name :: string
  file_path :: string
  doc_category :: string
  doc_subcategory :: "string option"
  doc_type :: string
  doc_title :: string
  doc_description :: "string option"
  doc_keywords :: "string list option"
  api_version :: "string option"
  doc_priority :: "int option"

record ChunkRow =
  document_id :: nat
  chunk_index :: nat
  chunk_content :: string
  content_lower :: string
  section_title :: "string option"
  page_number :: "nat option"

record Tables =
  documents :: "DocRow list"
  chunks :: "ChunkRow list"

type_synonym database = "Tables option"

definition ascii_lower :: "char \<Rightarrow> char" where
  "ascii_lower c = (let n = code c in if 65 \<le> n \<and> n \<le> 90 then char_of (nat (n + 32)) else c)"

fun sql_like :: "string \<Rightarrow> string \<Rightarrow> bool" where
  \<comment> \<open>SQLite's \<open>text LIKE pattern\<close>: \<open>%\<close> is any sequence, \<open>_\<close> any character, and
      ASCII letters compare without case\<close>
  "sql_like [] s = (s = [])"
| "sql_like (p # ps) s =
     (if p = CHR ''%''
      then (sql_like ps s \<or> (case s of [] \<Rightarrow> False | c # cs \<Rightarrow> sql_like (p # ps) cs))
      else (case s of
              [] \<Rightarrow> False
            | c # cs \<Rightarrow> (p = CHR ''_'' \<or> ascii_lower p = ascii_lower c) \<and> sql_like ps cs))"

definition truthy :: "string option \<Rightarrow> bool" where
  \<comment> \<open>the truth value of an optional string: neither \<open>undefined\<close> nor empty\<close>
  "truthy x = (case x of None \<Rightarrow> False | Some s \<Rightarrow> s \<noteq> [])"

fun insert_desc :: "DocRow \<times> ChunkRow \<Rightarrow> (DocRow \<times> ChunkRow) list \<Rightarrow> (DocRow \<times> ChunkRow) list" where
  \<comment> \<open>\<open>ORDER BY d.priority DESC\<close>: a greater priority first, NULL last, rows of equal
      priority in table order\<close>
  "insert_desc x [] = [x]"
| "insert_desc x (y # ys) =
     (if (case doc_priority (fst x) of
            None \<Rightarrow> doc_priority (fst y) = None
          | Some p \<Rightarrow> (case doc_priority (fst y) of None \<Rightarrow> True | Some q \<Rightarrow> q \<le> p))
      then x # y # ys else y # insert_desc x ys)"

definition order_by_priority_desc :: "(DocRow \<times> ChunkRow) list \<Rightarrow> (DocRow \<times> ChunkRow) list" where
  "order_by_priority_desc rows = foldr insert_desc rows []"

definition sql_select ::
  "Tables \<Rightarrow> string list \<Rightarrow> string option \<Rightarrow> string option \<Rightarrow> int \<Rightarrow> (DocRow \<times> ChunkRow) list" where
  \<comment> \<open>the statement of \<open>executeSearch\<close>: chunks joined with their documents, any of the
      patterns matching \<open>content_lower\<close>, the filters that are set, ordered and limited
      (a negative LIMIT is no limit)\<close>
  "sql_select t patterns category subcategory sampleSize =
     (let joined = concat (map (\<lambda>c. map (\<lambda>d. (d, c))
                            (filter (\<lambda>d. doc_id d = document_id c) (documents t))) (chunks t));
          selected = filter (\<lambda>(d, c).
                        (\<exists>p \<in> set patterns. sql_like p (content_lower c))
                        \<and> (truthy category \<longrightarrow> Some (doc_category d) = category)
                        \<and> (truthy subcategory \<longrightarrow> doc_subcategory d = subcategory)) joined;
          ordered = order_by_priority_desc selected
      in if sampleSize < 0 then ordered else take (nat sampleSize) ordered)"

subsection \<open>Results, options and the cache\<close>

record DocumentMetadata =
  meta_id :: nat
  fileName :: string
  filePath :: string
  category :: string
  subcategory :: "string option"
  docType :: string
  meta_title :: string
  description :: "string option"
  meta_keywords :: "string list"
  apiVersion :: "string option"
  priority :: int

record IntentInfo =
  info_category :: "string option"
  info_subcategory :: "string option"
  info_confidence :: Confidence
  info_description :: string

record SearchResult =
  document :: DocumentMetadata
  chunk :: string
  score :: real
  matchDensity :: real
  result_sectionTitle :: "string option"
  highlights :: "string list"
  detectedIntent :: "IntentInfo option"

record SearchOptions =
  opt_category :: "string option"
  opt_subcategory :: "string option"
  maxResults :: "int option"

datatype SearchError = SearchFailed string

type_synonym cache_key = "string \<times> SearchOptions \<times> string option \<times> string option"

text \<open>
  The cache is an \<open>LRUCache\<close> of the lru-cache package with \<open>max: 500\<close> and a
  \<open>ttl\<close> of five minutes: a list of entries, the most recently used first, each with
  the clock reading (in milliseconds) of the moment it was set. The key is the JSON text
  of the sanitized query, the options and the effective filters, modelled by the tuple.
\<close>

record CacheEntry =
  entry_key :: cache_key
  entry_value :: "SearchResult list"
  entry_start :: nat

definition cache_max :: nat where
  "cache_max = 500"

definition cache_ttl :: nat where
  "cache_ttl = 1000 * 60 * 5"

definition cache_get :: "CacheEntry list \<Rightarrow> nat \<Rightarrow> cache_key \<Rightarrow> SearchResult list option \<times> CacheEntry list" where
  \<comment> \<open>\<open>searchCache.get(key)\<close>: a stale entry is deleted and not returned, a fresh one
      becomes the most recently used\<close>
  "cache_get cache now k =
     (case find (\<lambda>e. entry_key e = k) cache of
        None \<Rightarrow> (None, cache)
      | Some e \<Rightarrow>
          if now - entry_start e > cache_ttl
          then (None, filter (\<lambda>e. entry_key e \<noteq> k) cache)
          else (Some (entry_value e), e # filter (\<lambda>e. entry_key e \<noteq> k) cache))"

definition cache_set :: "CacheEntry list \<Rightarrow> nat \<Rightarrow> cache_key \<Rightarrow> SearchResult list \<Rightarrow> CacheEntry list" where
  \<comment> \<open>\<open>searchCache.set(key, value)\<close>: the least recently used entries beyond \<open>max\<close> go\<close>
  "cache_set cache now k v =
     take cache_max (\<lparr>entry_key = k, entry_value = v, entry_start = now\<rparr>
                     # filter (\<lambda>e. entry_key e \<noteq> k) cache)"

record SearchState =
  disk :: "database option"      \<comment> \<open>the file at \<open>DB_PATH\<close>, if it exists\<close>
  db :: "database option"        \<comment> \<open>the module variable \<open>db\<close>, \<open>None\<close> for \<open>null\<close>\<close>
  searchCache :: "CacheEntry list"
  prepared :: "(string list \<times> string option \<times> string option \<times> int) list"
    \<comment> \<open>the statements \<open>executeSearch\<close> has prepared so far, the latest last\<close>

definition getDatabase :: "SearchState \<Rightarrow> database \<times> SearchState" where
  \<comment> \<open>the first call loads the file, or creates an empty database when there is none\<close>
  "getDatabase st =
     (case db st of
        Some d \<Rightarrow> (d, st)
      | None \<Rightarrow> (let d = (case disk st of Some f \<Rightarrow> f | None \<Rightarrow> None)
                 in (d, st\<lparr>db := Some d\<rparr>)))"

subsection \<open>Query sanitization\<close>

definition MAX_QUERY_LENGTH :: nat where
  "MAX_QUERY_LENGTH = 500"

definition sanitizeQuery :: "string \<Rightarrow> string" where
  "sanitizeQuery query =
     (let q1 = (if length query > MAX_QUERY_LENGTH then take MAX_QUERY_LENGTH query else query);
          q2 = filter (\<lambda>c. c \<noteq> CHR ''<'' \<and> c \<noteq> CHR ''>'') q1;
          q3 = filter (\<lambda>c. \<not> code c \<le> 31) q2;
          q4 = trim q3
      in concat (map (\<lambda>c. if code c = 39 then [c, c] else [c]) q4))"

definition searchTerms_of :: "string \<Rightarrow> string list" where
  \<comment> \<open>\<open>query.toLowerCase().split(/\s+/).filter(w => w.length > 1)\<close>\<close>
  "searchTerms_of query = filter (\<lambda>w. length w > 1) (split whitespace_re (toLowerCase query))"

definition buildSearchPatterns :: "string \<Rightarrow> string list" where
  "buildSearchPatterns query = map (\<lambda>w. ''%'' @ w @ ''%'') (searchTerms_of query)"

subsection \<open>Scoring\<close>

text \<open>
  Scores and densities are JavaScript numbers in the source; the model computes them in
  exact real arithmetic.
\<close>

fun startsWith_ci :: "string \<Rightarrow> string \<Rightarrow> bool" where
  \<comment> \<open>the literal term matches at the start of the string under the i flag\<close>
  "startsWith_ci s [] = True"
| "startsWith_ci [] (d # t) = False"
| "startsWith_ci (c # s) (d # t) = (lower_char c = lower_char d \<and> startsWith_ci s t)"

function count_matches :: "string \<Rightarrow> string \<Rightarrow> nat" where
  \<comment> \<open>\<open>text.match(new RegExp(escaped term, 'gi'))\<close>: the matches of the literal term,
      letters compared without case, each match starting where the previous one ended\<close>
  "count_matches term [] = 0"
| "count_matches term (c # s) =
     (if term \<noteq> [] \<and> startsWith_ci (c # s) term
      then Suc (count_matches term (drop (length term) (c # s)))
      else count_matches term s)"
  by pat_completeness auto
termination
  by (relation "measure (\<lambda>(term, s). length s)") auto

definition term_counts :: "string list \<Rightarrow> string \<Rightarrow> nat \<times> nat" where
  \<comment> \<open>the loop over \<open>searchTerms\<close>: \<open>(matchCount, totalOccurrences)\<close>\<close>
  "term_counts terms contentLower =
     foldl (\<lambda>(matchCount, totalOccurrences) term.
              if str_includes contentLower term
              then (matchCount + 1, totalOccurrences + count_matches term contentLower)
              else (matchCount, totalOccurrences))
           (0, 0) terms"

fun highlights_loop :: "string \<Rightarrow> string \<Rightarrow> string list \<Rightarrow> string list \<Rightarrow> string list" where
  "highlights_loop body bodyLower hs [] = hs"
| "highlights_loop body bodyLower hs (word # words) =
     (case indexOf bodyLower word of
        None \<Rightarrow> highlights_loop body bodyLower hs words
      | Some i \<Rightarrow>
          (let start = i - 100;
               end' = min (length body) (i + length word + 100);
               snippet = substring body start end';
               snippet1 = (if start > 0 then ''...'' @ snippet else snippet);
               snippet2 = (if end' < length body then snippet1 @ ''...'' else snippet1);
               hs' = hs @ [snippet2]
           in if length hs' \<ge> 2 then hs' else highlights_loop body bodyLower hs' words))"

definition extractHighlights :: "string \<Rightarrow> string \<Rightarrow> string list" where
  "extractHighlights body query =
     (if body = [] then []
      else highlights_loop body (toLowerCase body) []
             (filter (\<lambda>w. length w > 2) (split whitespace_re (toLowerCase query))))"

definition score_row ::
  "string list \<Rightarrow> string \<Rightarrow> IntentInfo option \<Rightarrow> DocRow \<times> ChunkRow \<Rightarrow> SearchResult" where
  \<comment> \<open>the function mapped over the rows in \<open>executeSearch\<close>\<close>
  "score_row searchTerms sanitizedQuery info row =
     (case row of (d, c) \<Rightarrow>
        let contentLower = content_lower c;
            prio = (case doc_priority d of None \<Rightarrow> 1 | Some p \<Rightarrow> if p = 0 then 1 else p);
            counts = term_counts searchTerms contentLower;
            density = (if length searchTerms > 0
                       then real (fst counts) / real (length searchTerms) else 0);
            occurrenceBonus = min (real (snd counts) * 0.1) 2;
            relevanceScore = density * 10 + real_of_int prio * 0.2 + occurrenceBonus
        in \<lparr>document = \<lparr>meta_id = doc_id d, fileName = file_name d, filePath = file_path d,
                          category = doc_category d, subcategory = doc_subcategory d,
                          docType = doc_type d, meta_title = doc_title d,
                          description = doc_description d,
                          meta_keywords = (case doc_keywords d of None \<Rightarrow> [] | Some ks \<Rightarrow> ks),
                          apiVersion = api_version d, priority = prio\<rparr>,
            chunk = chunk_content c,
            score = relevanceScore,
            matchDensity = density,
            result_sectionTitle = section_title c,
            highlights = extractHighlights (chunk_content c) sanitizedQuery,
            detectedIntent = info\<rparr>)"

definition sort_by_score :: "SearchResult list \<Rightarrow> SearchResult list" where
  \<comment> \<open>\<open>results.sort((a, b) => b.score - a.score)\<close>, a stable sort\<close>
  "sort_by_score results = sort_key (\<lambda>r. - score r) results"

definition executeSearch ::
  "database \<Rightarrow> string list \<Rightarrow> string \<Rightarrow> IntentInfo option
     \<Rightarrow> string option \<Rightarrow> string option \<Rightarrow> int \<Rightarrow> string + SearchResult list" where
  \<comment> \<open>\<open>Inl\<close> is the message of the error that \<open>db.prepare\<close> throws\<close>
  "executeSearch d searchTerms sanitizedQuery info cat sub sampleSize =
     (case d of
        None \<Rightarrow> Inl ''no such table: chunks''
      | Some t \<Rightarrow>
          Inr (sort_by_score
                 (map (score_row searchTerms sanitizedQuery info)
                    (sql_select t (map (\<lambda>w. ''%'' @ w @ ''%'') searchTerms)
                       cat sub sampleSize))))"

subsection \<open>Search\<close>

type_synonym statement = "string list \<times> string option \<times> string option \<times> int"

definition slice0 :: "'a list \<Rightarrow> int \<Rightarrow> 'a list" where
  \<comment> \<open>\<open>xs.slice(0, e)\<close>: a negative end counts from the end of the list\<close>
  "slice0 xs e = (if e \<ge> 0 then take (nat e) xs else take (length xs - nat (- e)) xs)"

definition search_attempts ::
  "database \<Rightarrow> string list \<Rightarrow> string \<Rightarrow> IntentInfo option \<Rightarrow> bool
     \<Rightarrow> string option \<Rightarrow> string option \<Rightarrow> int
     \<Rightarrow> (string + SearchResult list) \<times> statement list" where
  \<comment> \<open>the \<open>try\<close> block of \<open>searchDocuments\<close> up to the final value of \<open>results\<close>,
      with the statements it prepared\<close>
  "search_attempts d searchTerms sanitizedQuery info usedIntentFilter
       effectiveCategory effectiveSubcategory maxR =
     (let isFiltered = (truthy effectiveCategory \<or> truthy effectiveSubcategory);
          sampleSize = (if isFiltered then max (maxR * 10) 100 else max (maxR * 50) 500);
          pats = map (\<lambda>w. ''%'' @ w @ ''%'') searchTerms;
          stmts1 = [(pats, effectiveCategory, effectiveSubcategory, sampleSize)]
      in case executeSearch d searchTerms sanitizedQuery info
                effectiveCategory effectiveSubcategory sampleSize of
           Inl e \<Rightarrow> (Inl e, stmts1)
         | Inr results \<Rightarrow>
             if usedIntentFilter \<and> int (length results) < maxR
             then (let stmts2 = stmts1 @ [(pats, effectiveCategory, None, sampleSize)]
                   in case executeSearch d searchTerms sanitizedQuery info
                             effectiveCategory None sampleSize of
                        Inl e \<Rightarrow> (Inl e, stmts2)
                      | Inr categoryResults \<Rightarrow>
                          (let results1 = (if length categoryResults > length results
                                           then categoryResults else results)
                           in if int (length results1) < maxR
                              then (let stmts3 = stmts2 @ [(pats, None, None, 500)]
                                    in case executeSearch d searchTerms sanitizedQuery info
                                              None None 500 of
                                         Inl e \<Rightarrow> (Inl e, stmts3)
                                       | Inr unfilteredResults \<Rightarrow>
                                           (Inr (if length unfilteredResults > length results1
                                                 then unfilteredResults else results1), stmts3))
                              else (Inr results1, stmts2)))
             else (Inr results, stmts1))"

definition usedIntentFilter_of :: "SearchOptions \<Rightarrow> DetectedIntent \<Rightarrow> bool" where
  \<comment> \<open>the condition under which the detected intent becomes the effective filter\<close>
  "usedIntentFilter_of options intent =
     (\<not> truthy (opt_category options) \<and> \<not> truthy (opt_subcategory options)
      \<and> intent_confidence intent \<noteq> low \<and> truthy (intent_subcategory intent))"

definition cacheKey_of :: "string \<Rightarrow> SearchOptions \<Rightarrow> cache_key" where
  \<comment> \<open>the cache key of a sanitized query: the effective filters are those of the intent
      when the intent filter applies, the caller's otherwise\<close>
  "cacheKey_of sanitizedQuery options =
     (let intent = detectIntent sanitizedQuery;
          used = usedIntentFilter_of options intent
      in (sanitizedQuery, options,
          if used then intent_category intent else opt_category options,
          if used then intent_subcategory intent else opt_subcategory options))"

definition maxResults_of :: "SearchOptions \<Rightarrow> int" where
  \<comment> \<open>\<open>options.maxResults || 5\<close>\<close>
  "maxResults_of options = (case maxResults options of None \<Rightarrow> 5 | Some m \<Rightarrow> if m = 0 then 5 else m)"

definition search_miss ::
  "database \<Rightarrow> string \<Rightarrow> SearchOptions \<Rightarrow> (string + SearchResult list) \<times> statement list" where
  \<comment> \<open>\<open>searchDocuments\<close> after a cache miss, for a query with at least one term: the
      attempts of the \<open>try\<close> block and \<open>results.slice(0, maxResults)\<close>\<close>
  "search_miss d sanitizedQuery options =
     (let intent = detectIntent sanitizedQuery;
          used = usedIntentFilter_of options intent;
          info = (if used
                  then Some \<lparr>info_category = intent_category intent,
                             info_subcategory = intent_subcategory intent,
                             info_confidence = intent_confidence intent,
                             info_description = describeIntent intent\<rparr>
                  else None);
          key = cacheKey_of sanitizedQuery options;
          maxR = maxResults_of options
      in case search_attempts d (searchTerms_of sanitizedQuery) sanitizedQuery info used
                (fst (snd (snd key))) (snd (snd (snd key))) maxR of
           (Inl e, stmts) \<Rightarrow> (Inl e, stmts)
         | (Inr results, stmts) \<Rightarrow> (Inr (slice0 results maxR), stmts))"

definition searchDocuments ::
  "SearchState \<Rightarrow> nat \<Rightarrow> string \<Rightarrow> SearchOptions
     \<Rightarrow> (SearchError + SearchResult list) \<times> SearchState" where
  \<comment> \<open>\<open>now\<close> is the reading of the clock at the call\<close>
  "searchDocuments st now query options =
     (case getDatabase st of (d, st1) \<Rightarrow>
        let sanitizedQuery = sanitizeQuery query;
            cacheKey = cacheKey_of sanitizedQuery options
        in case cache_get (searchCache st1) now cacheKey of
             (Some cached, cache1) \<Rightarrow> (Inr cached, st1\<lparr>searchCache := cache1\<rparr>)
           | (None, cache1) \<Rightarrow>
               if length (buildSearchPatterns sanitizedQuery) = 0
               then (Inr [], st1\<lparr>searchCache := cache1\<rparr>)
               else (case search_miss d sanitizedQuery options of
                       (Inl e, stmts) \<Rightarrow>
                         (Inl (SearchFailed (''Search failed: '' @ e)),
                          st1\<lparr>searchCache := cache1, prepared := prepared st1 @ stmts\<rparr>)
                     | (Inr topResults, stmts) \<Rightarrow>
                         (Inr topResults,
                          st1\<lparr>searchCache := cache_set cache1 now cacheKey topResults,
                              prepared := prepared st1 @ stmts\<rparr>)))"

definition initial_state :: "database option \<Rightarrow> SearchState" where
  \<comment> \<open>the module state when the process starts\<close>
  "initial_state f = \<lparr>disk = f, db = None, searchCache = [], prepared = []\<rparr>"

inductive reachable :: "SearchState \<Rightarrow> bool" where
  \<comment> \<open>the states the query path can be in: the process starts and serves searches\<close>
  start: "reachable (initial_state f)"
| search: "reachable st \<Longrightarrow> reachable (snd (searchDocuments st now query options))"

section \<open>Index builder\<close>

text \<open>
  The builder runs as a script of its own. Of the file system it sees the data
  directory, the database file at \<open>DB_PATH\<close> and the PDF files found under the two
  document directories. A PDF is modelled by what the script derives from it before it
  touches the database: whether reading and parsing succeed, the text after
  \<open>cleanPdfText\<close>, and the classification and title computed from the file name.
  Every step outside \<open>processPdf\<close> can throw (\<open>processPdf\<close> catches its own errors);
  \<open>fault\<close> names the step at which the environment makes the run fail, if any. The
  final \<open>writeFileSync\<close> is one step that puts the exported database in the place
  of the file.
\<close>

record Pdf =
  pdf_fileName :: string
  pdf_filePath :: string
  pdf_readable :: bool
  pdf_text :: string
  pdf_numpages :: nat
  pdf_size :: nat
  pdf_category :: string
  pdf_subcategory :: string
  pdf_docType :: string
  pdf_priority :: int
  pdf_keywords :: "string list"
  pdf_title :: string

record FileSystem =
  data_dir :: bool
  db_file :: "database option"
  pdf_files :: "Pdf list"

datatype BuildStep = MkDir | Unlink | InitSql | CreateSchema | FindPdfs | CountRows

datatype BuildError = BuildFailed BuildStep

record BuildReport =
  documentsIndexed :: nat
  documentsFailed :: nat
  totalChunks :: nat

definition chunk_rows :: "nat \<Rightarrow> Chunk list \<Rightarrow> ChunkRow list" where
  \<comment> \<open>the rows inserted for the chunks longer than 50 characters\<close>
  "chunk_rows documentId cs =
     map (\<lambda>c. \<lparr>document_id = documentId, chunk_index = index c, chunk_content = content c,
                content_lower = toLowerCase (content c),
                section_title = (if truthy (sectionTitle c) then sectionTitle c else None),
                page_number = None\<rparr>)
         (filter (\<lambda>c. length (content c) > 50) cs)"

definition processPdf :: "Tables \<Rightarrow> Pdf \<Rightarrow> bool \<times> Tables" where
  "processPdf t pdf =
     (if \<not> pdf_readable pdf then (False, t)
      else if length (pdf_text pdf) < 100 then (False, t)
      else if \<exists>d \<in> set (documents t). file_name d = pdf_fileName pdf then (False, t)
      else
        (let documentId = Suc (length (documents t));
             row = \<lparr>doc_id = documentId, file_name = pdf_fileName pdf,
                    file_path = pdf_filePath pdf, doc_category = pdf_category pdf,
                    doc_subcategory = Some (pdf_subcategory pdf), doc_type = pdf_docType pdf,
                    doc_title = pdf_title pdf, doc_description = None,
                    doc_keywords = Some (pdf_keywords pdf), api_version = None,
                    doc_priority = Some (pdf_priority pdf)\<rparr>;
             cs = chunkText (pdf_text pdf) \<lparr>maxChunkSize = Some 1500, overlapSize = Some 150\<rparr>
         in (True, \<lparr>documents = documents t @ [row],
                    chunks = chunks t @ chunk_rows documentId cs\<rparr>)))"

definition process_all :: "Tables \<Rightarrow> Pdf list \<Rightarrow> (nat \<times> nat) \<times> Tables" where
  \<comment> \<open>the loop over \<open>pdfPaths\<close>: \<open>((successCount, failCount), db)\<close>\<close>
  "process_all t pdfs =
     foldl (\<lambda>((successCount, failCount), t) pdf.
              case processPdf t pdf of
                (True, t') \<Rightarrow> ((successCount + 1, failCount), t')
              | (False, t') \<Rightarrow> ((successCount, failCount + 1), t'))
           ((0, 0), t) pdfs"

definition buildIndex :: "BuildStep option \<Rightarrow> FileSystem \<Rightarrow> (BuildError + BuildReport) \<times> FileSystem" where
  "buildIndex fault fs =
     (if \<not> data_dir fs \<and> fault = Some MkDir then (Inl (BuildFailed MkDir), fs)
      else
        let fs1 = fs\<lparr>data_dir := True\<rparr>
        in if db_file fs1 \<noteq> None \<and> fault = Some Unlink then (Inl (BuildFailed Unlink), fs1)
           else
             let fs2 = fs1\<lparr>db_file := None\<rparr>
             in if fault = Some InitSql then (Inl (BuildFailed InitSql), fs2)
                else if fault = Some CreateSchema then (Inl (BuildFailed CreateSchema), fs2)
                else if fault = Some FindPdfs then (Inl (BuildFailed FindPdfs), fs2)
                else
                  (case process_all \<lparr>documents = [], chunks = []\<rparr> (pdf_files fs2) of
                     ((successCount, failCount), t) \<Rightarrow>
                       if fault = Some CountRows then (Inl (BuildFailed CountRows), fs2)
                       else (Inr \<lparr>documentsIndexed = successCount,
                                  documentsFailed = failCount,
                                  totalChunks = length (chunks t)\<rparr>,
                             fs2\<lparr>db_file := Some (Some t)\<rparr>)))"

section \<open>Notions used in the properties\<close>



definition search_value :: "database \<Rightarrow> string \<Rightarrow> SearchOptions \<Rightarrow> SearchError + SearchResult list" where
  \<comment> \<open>what a search computes from the database when nothing is cached\<close>
  "search_value d sanitizedQuery options =
     (if buildSearchPatterns sanitizedQuery = [] then Inr []
      else case fst (search_miss d sanitizedQuery options) of
             Inl e \<Rightarrow> Inl (SearchFailed (''Search failed: '' @ e))
           | Inr topResults \<Rightarrow> Inr topResults)"

definition entry_ok :: "database \<Rightarrow> CacheEntry \<Rightarrow> bool" where
  \<comment> \<open>a cache entry holds what the search of its key computes from the database, and
      its key is the key of a query with at least one term\<close>
  "entry_ok d e =
     (case entry_key e of (sq, options, c, s) \<Rightarrow>
        entry_key e = cacheKey_of sq options
        \<and> buildSearchPatterns sq \<noteq> []
        \<and> fst (search_miss d sq options) = Inr (entry_value e))"

definition state_ok :: "SearchState \<Rightarrow> bool" where
  \<comment> \<open>the invariant of the module state: nothing is cached before the database is
      loaded, and every entry is right for the loaded database\<close>
  "state_ok st =
     (case db st of
        None \<Rightarrow> searchCache st = []
      | Some d \<Rightarrow> list_all (entry_ok d) (searchCache st))"

definition scored ::
  "Tables \<Rightarrow> string \<Rightarrow> IntentInfo option \<Rightarrow> string option \<Rightarrow> string option \<Rightarrow> int
     \<Rightarrow> SearchResult list" where
  \<comment> \<open>the scored and sorted candidates of one attempt on a database with schema\<close>
  "scored t sq info cat sub sampleSize =
     sort_by_score (map (score_row (searchTerms_of sq) sq info)
                      (sql_select t (buildSearchPatterns sq) cat sub sampleSize))"

definition intent_info :: "string \<Rightarrow> IntentInfo" where
  \<comment> \<open>the description of the detected intent that the results of a filtered search carry\<close>
  "intent_info sq =
     \<lparr>info_category = intent_category (detectIntent sq),
      info_subcategory = intent_subcategory (detectIntent sq),
      info_confidence = intent_confidence (detectIntent sq),
      info_description = describeIntent (detectIntent sq)\<rparr>"

definition widened ::
  "int \<Rightarrow> SearchResult list \<Rightarrow> SearchResult list \<Rightarrow> SearchResult list \<Rightarrow> SearchResult list" where
  \<comment> \<open>fallback widening as the specification words it: from the filtered attempt, the
      category-only attempt is adopted if it has strictly more results; if the list is
      still short of \<open>maxResults\<close>, the unfiltered attempt is adopted if it has strictly
      more results\<close>
  "widened maxR filtered categoryOnly unfiltered =
     (let current = (if length categoryOnly > length filtered then categoryOnly else filtered)
      in if int (length current) < maxR \<and> length unfiltered > length current
         then unfiltered else current)"

definition sampleSize_of :: "string option \<Rightarrow> string option \<Rightarrow> int \<Rightarrow> int" where
  \<comment> \<open>the sampling cap of the first attempt\<close>
  "sampleSize_of c s maxR =
     (if truthy c \<or> truthy s then max (maxR * 10) 100 else max (maxR * 50) 500)"


subsection \<open>A small index\<close>

definition example_doc :: "nat \<Rightarrow> string \<Rightarrow> string \<Rightarrow> int \<Rightarrow> DocRow" where
  "example_doc i c s p =
     \<lparr>doc_id = i, file_name = s @ ''.pdf'', file_path = ''docs/pdfs/'' @ s @ ''.pdf'',
      doc_category = c, doc_subcategory = Some s, doc_type = ''developer_guide'',
      doc_title = ''Guide'', doc_description = None, doc_keywords = Some [],
      api_version = None, doc_priority = Some p\<rparr>"

definition example_chunk :: "nat \<Rightarrow> string \<Rightarrow> ChunkRow" where
  "example_chunk i body =
     \<lparr>document_id = i, chunk_index = 0, chunk_content = body, content_lower = toLowerCase body,
      section_title = None, page_number = None\<rparr>"

definition apex_row :: "DocRow \<times> ChunkRow" where
  "apex_row = (example_doc 1 ''core_platform'' ''apex'' 9,
               example_chunk 1 ''Apex triggers run before or after a record changes. zz'')"

definition lwc_row :: "DocRow \<times> ChunkRow" where
  "lwc_row = (example_doc 2 ''core_platform'' ''lightning'' 5,
              example_chunk 2 ''Lwc components render data from wire adapters. zz and zz'')"

definition rest_row :: "DocRow \<times> ChunkRow" where
  "rest_row = (example_doc 3 ''apis'' ''rest_api'' 10,
               example_chunk 3 ''Rest resources expose records over HTTP endpoints. zz'')"


definition example_tables :: Tables where
  \<comment> \<open>a small index: three documents with one chunk each\<close>
  "example_tables =
     \<lparr>documents = map fst [apex_row, lwc_row, rest_row],
      chunks = map snd [apex_row, lwc_row, rest_row]\<rparr>"

definition example_state :: SearchState where
  "example_state = initial_state (Some (Some example_tables))"

definition no_options :: SearchOptions where
  "no_options = \<lparr>opt_category = None, opt_subcategory = None, maxResults = None\<rparr>"

fun longest_run :: "nat \<Rightarrow> string \<Rightarrow> nat" where
  \<comment> \<open>the length of the longest run of characters other than white space, where
      \<open>n\<close> such characters precede the string\<close>
  "longest_run n [] = n"
| "longest_run n (c # s) =
     (if is_space c then max n (longest_run 0 s) else longest_run (Suc n) s)"

definition longest_word :: "string \<Rightarrow> nat" where
  \<comment> \<open>the length of the longest word of a text\<close>
  "longest_word s = longest_run 0 s"

section \<open>Properties of the intent classifier\<close>

lemma startsWith_prefix: "startsWith s t \<longleftrightarrow> prefix t s"
  by (induction s t rule: startsWith.induct) auto

lemma str_includes_sublist: "str_includes s t \<longleftrightarrow> sublist t s"
  by (induction s) (auto simp: startsWith_prefix sublist_Cons_right)

lemma matchedKeywords_sublist:
  "matchedKeywords (toLowerCase q) p =
     filter (\<lambda>kw. sublist (toLowerCase kw) (toLowerCase q)) (pattern_keywords p)"
  by (simp add: matchedKeywords_def str_includes_sublist)

lemma scan_total:
  "snd (snd (foldl (scan_pattern ql) (sc, m, tw) ps)) =
     tw + (\<Sum>p\<leftarrow>ps. pattern_weight p * length (matchedKeywords ql p))"
  by (induction ps arbitrary: sc m tw) (auto simp: scan_pattern_def Let_def)

lemma totalWeight_detectIntent:
  "totalWeight (detectIntent q) =
     (\<Sum>p\<leftarrow>INTENT_PATTERNS. pattern_weight p * length (matchedKeywords (toLowerCase q) p))"
proof -
  obtain sc m tw
    where f: "foldl (scan_pattern (toLowerCase q)) ([], [], 0) INTENT_PATTERNS = (sc, m, tw)"
    by (cases "foldl (scan_pattern (toLowerCase q)) ([], [], 0) INTENT_PATTERNS") auto
  have "tw = snd (snd (foldl (scan_pattern (toLowerCase q)) ([], [], 0) INTENT_PATTERNS))"
    by (simp add: f)
  also have "\<dots> = 0 + (\<Sum>p\<leftarrow>INTENT_PATTERNS.
                          pattern_weight p * length (matchedKeywords (toLowerCase q) p))"
    by (rule scan_total)
  finally show ?thesis by (simp add: detectIntent_def Let_def f)
qed

lemma confidence_detectIntent:
  "intent_confidence (detectIntent q) = confidence_of (totalWeight (detectIntent q))"
  by (simp add: detectIntent_def Let_def split: prod.splits)

lemma detectIntent_batch_apex_queueable:
  "detectIntent ''batch apex queueable'' =
     \<lparr>intent_category = Some ''core_platform'', intent_subcategory = Some ''apex'',
      intent_confidence = high, matchedPatterns = [''apex'', ''batch apex'', ''queueable''],
      totalWeight = 34\<rparr>"
  by code_simp

lemma detectIntent_apex_lwc:
  "detectIntent ''apex lwc'' =
     \<lparr>intent_category = Some ''core_platform'', intent_subcategory = Some ''apex'',
      intent_confidence = high, matchedPatterns = [''apex'', ''lwc''], totalWeight = 20\<rparr>"
  by code_simp

text \<open>
  C5. The total weight of a query is the sum, over all patterns, of the pattern's weight
  times the number of its trigger phrases that occur in the query as substrings, both in
  lower case; the confidence is \<open>high\<close> from a total of 15, \<open>medium\<close> from 7 and \<open>low\<close>
  below, whatever pair wins. The query \<open>batch apex queueable\<close> is classified as
  subcategory \<open>apex\<close> with confidence \<open>high\<close>.
\<close>

theorem detectIntent_confidence:
  "totalWeight (detectIntent q) =
     (\<Sum>p\<leftarrow>INTENT_PATTERNS.
        pattern_weight p
        * length (filter (\<lambda>kw. sublist (toLowerCase kw) (toLowerCase q)) (pattern_keywords p)))
   \<and> intent_confidence (detectIntent q) =
       (if totalWeight (detectIntent q) \<ge> 15 then high
        else if totalWeight (detectIntent q) \<ge> 7 then medium else low)
   \<and> intent_subcategory (detectIntent ''batch apex queueable'') = Some ''apex''
   \<and> intent_confidence (detectIntent ''batch apex queueable'') = high"
  by (simp add: totalWeight_detectIntent matchedKeywords_sublist confidence_detectIntent
        confidence_of_def detectIntent_batch_apex_queueable)

text \<open>
  The query \<open>apex lwc\<close> matches one phrase of an \<open>apex\<close> pattern and one of a
  \<open>lightning\<close> pattern, each of weight 10: no pair reaches 15, the total does.
\<close>

theorem detectIntent_confidence_witness:
  "totalWeight (detectIntent ''apex lwc'') = 20
   \<and> intent_confidence (detectIntent ''apex lwc'') = high
   \<and> (\<Sum>p\<leftarrow>INTENT_PATTERNS.
        pattern_weight p
        * length (filter (\<lambda>kw. sublist (toLowerCase kw) (toLowerCase ''apex lwc''))
                    (pattern_keywords p))) = 20"
  using detectIntent_confidence [of "''apex lwc''"]
  by (simp add: detectIntent_apex_lwc)

section \<open>Properties of the query expander\<close>

lemma set_foldl_set_add: "set (foldl set_add acc xs) = set acc \<union> set xs"
  by (induction xs arbitrary: acc) (auto simp: set_add_def)

lemma distinct_foldl_set_add: "distinct acc \<Longrightarrow> distinct (foldl set_add acc xs)"
  by (induction xs arbitrary: acc) (auto simp: set_add_def)

lemma distinct_unique: "distinct (unique xs)"
  by (simp add: unique_def distinct_foldl_set_add)

lemma foldl_set_add_distinct: "distinct (acc @ xs) \<Longrightarrow> foldl set_add acc xs = acc @ xs"
  by (induction xs arbitrary: acc) (auto simp: set_add_def)

lemma unique_distinct: "distinct xs \<Longrightarrow> unique xs = xs"
  using foldl_set_add_distinct [of "[]" xs] by (simp add: unique_def)

lemma matchedPatterns_distinct: "distinct (matchedPatterns (detectIntent q))"
  by (simp add: detectIntent_def Let_def distinct_unique split: prod.splits)

lemma foldl_join: "foldl (\<lambda>acc y. acc @ sep @ y) a r = a @ concat (map (\<lambda>y. sep @ y) r)"
  by (induction r arbitrary: a) auto

lemma buildReasoning_nonempty: "buildReasoning q i cs \<noteq> []"
  by (simp add: buildReasoning_def Let_def)

text \<open>
  C8. The expander is a function without a failing branch: every loop of the source runs
  over a finite list, and splitting on white space terminates. For every query and
  every context, present or not, the expanded terms are pairwise different and at most
  20, the detected concepts are the phrases the classifier matched, the suggested
  category and the confidence are the classifier's, and the reasoning is a non-empty
  string.
\<close>

theorem expandQueryToKeywords_total:
  "distinct (expandedTerms (expandQueryToKeywords q ctx))
   \<and> length (expandedTerms (expandQueryToKeywords q ctx)) \<le> 20
   \<and> detectedConcepts (expandQueryToKeywords q ctx) = matchedPatterns (detectIntent q)
   \<and> suggestedCategory (expandQueryToKeywords q ctx) = intent_category (detectIntent q)
   \<and> expansion_confidence (expandQueryToKeywords q ctx) = intent_confidence (detectIntent q)
   \<and> reasoning (expandQueryToKeywords q ctx) \<noteq> []"
  by (simp add: expandQueryToKeywords_def Let_def distinct_unique unique_distinct
        matchedPatterns_distinct buildReasoning_nonempty)

theorem expandQueryToKeywords_total_witness:
  "distinct (expandedTerms (expandQueryToKeywords ''apex lwc'' (Some ''in a trigger'')))
   \<and> length (expandedTerms (expandQueryToKeywords ''apex lwc'' (Some ''in a trigger''))) \<le> 20
   \<and> detectedConcepts (expandQueryToKeywords ''apex lwc'' (Some ''in a trigger'')) = [''apex'', ''lwc'']
   \<and> suggestedCategory (expandQueryToKeywords ''apex lwc'' (Some ''in a trigger'')) = Some ''core_platform''
   \<and> expansion_confidence (expandQueryToKeywords ''apex lwc'' (Some ''in a trigger'')) = high"
  using expandQueryToKeywords_total [of "''apex lwc''" "Some ''in a trigger''"]
  by (simp add: detectIntent_apex_lwc)

section \<open>Properties of the text chunker\<close>








section \<open>Properties of the index builder\<close>

lemma buildIndex_failure:
  "fst (buildIndex fault fs) = Inl (BuildFailed s) \<Longrightarrow>
     (if s = MkDir \<or> s = Unlink then db_file (snd (buildIndex fault fs)) = db_file fs
      else db_file (snd (buildIndex fault fs)) = None)"
  by (auto simp: buildIndex_def Let_def split: if_splits prod.splits)

lemma buildIndex_success:
  "fst (buildIndex fault fs) = Inr rep \<Longrightarrow>
     db_file (snd (buildIndex fault fs)) =
       Some (Some (snd (process_all \<lparr>documents = [], chunks = []\<rparr> (pdf_files fs))))"
  by (auto simp: buildIndex_def Let_def split: if_splits prod.splits)

lemma buildIndex_no_fault: "\<exists>rep. fst (buildIndex None fs) = Inr rep"
  by (auto simp: buildIndex_def Let_def split: if_splits prod.splits)

text \<open>
  C1, as the specification states it, fails: the builder removes the database file
  before it starts to build. When the run then fails, here at the initialization of the
  SQL engine, the final location holds no index at all, and not the previous one.
\<close>

theorem buildIndex_atomic_counterexample:
  "fst (buildIndex (Some InitSql)
          \<lparr>data_dir = True, db_file = Some (Some \<lparr>documents = [], chunks = []\<rparr>), pdf_files = []\<rparr>)
     = Inl (BuildFailed InitSql)
   \<and> db_file (snd (buildIndex (Some InitSql)
          \<lparr>data_dir = True, db_file = Some (Some \<lparr>documents = [], chunks = []\<rparr>), pdf_files = []\<rparr>))
     = None"
  by (simp add: buildIndex_def Let_def)

text \<open>
  C1, amended. The new index is written to its final location only when the whole build
  has completed in memory, as one artifact: a run that completes leaves there exactly
  the database built from the PDF files, and a run without a fault completes. The
  previous artifact is removed at the start of the run: a run that fails when creating
  the data directory or removing the file leaves the file as it was, and a run that
  fails at any later point leaves no file at the final location, neither the previous
  index nor a part of the new one.
\<close>

theorem buildIndex_writes_on_completion:
  "(fst (buildIndex fault fs) = Inl (BuildFailed s) \<and> (s = MkDir \<or> s = Unlink)
      \<longrightarrow> db_file (snd (buildIndex fault fs)) = db_file fs)
   \<and> (fst (buildIndex fault fs) = Inl (BuildFailed s) \<and> s \<noteq> MkDir \<and> s \<noteq> Unlink
      \<longrightarrow> db_file (snd (buildIndex fault fs)) = None)
   \<and> (fst (buildIndex fault fs) = Inr rep
      \<longrightarrow> db_file (snd (buildIndex fault fs)) =
            Some (Some (snd (process_all \<lparr>documents = [], chunks = []\<rparr> (pdf_files fs)))))
   \<and> (\<exists>rep'. fst (buildIndex None fs) = Inr rep')"
  using buildIndex_failure [of fault fs s] buildIndex_success [of fault fs rep]
    buildIndex_no_fault [of fs]
  by auto

theorem buildIndex_writes_on_completion_witness:
  "fst (buildIndex (Some CountRows)
          \<lparr>data_dir = True, db_file = Some (Some \<lparr>documents = [], chunks = []\<rparr>), pdf_files = []\<rparr>)
     = Inl (BuildFailed CountRows)
   \<and> db_file (snd (buildIndex (Some CountRows)
          \<lparr>data_dir = True, db_file = Some (Some \<lparr>documents = [], chunks = []\<rparr>), pdf_files = []\<rparr>))
     = None
   \<and> fst (buildIndex None \<lparr>data_dir = False, db_file = None, pdf_files = []\<rparr>)
     = Inr \<lparr>documentsIndexed = 0, documentsFailed = 0, totalChunks = 0\<rparr>
   \<and> db_file (snd (buildIndex None \<lparr>data_dir = False, db_file = None, pdf_files = []\<rparr>))
     = Some (Some \<lparr>documents = [], chunks = []\<rparr>)"
  using buildIndex_writes_on_completion
    [of "Some CountRows"
        "\<lparr>data_dir = True, db_file = Some (Some \<lparr>documents = [], chunks = []\<rparr>), pdf_files = []\<rparr>"
        CountRows]
    buildIndex_writes_on_completion
    [of None "\<lparr>data_dir = False, db_file = None, pdf_files = []\<rparr>" _
        "\<lparr>documentsIndexed = 0, documentsFailed = 0, totalChunks = 0\<rparr>"]
  by (simp add: buildIndex_def process_all_def Let_def)

section \<open>Properties of the retrieval engine\<close>

subsection \<open>The cache holds what the search computes\<close>

lemma getDatabase_facts:
  "db (snd (getDatabase st)) = Some (fst (getDatabase st))
   \<and> disk (snd (getDatabase st)) = disk st
   \<and> searchCache (snd (getDatabase st)) = searchCache st
   \<and> prepared (snd (getDatabase st)) = prepared st"
  by (simp add: getDatabase_def Let_def split: option.splits)

lemma getDatabase_loaded: "db st = Some d \<Longrightarrow> getDatabase st = (d, st)"
  by (simp add: getDatabase_def)

lemma state_ok_getDatabase:
  "state_ok st \<Longrightarrow> list_all (entry_ok (fst (getDatabase st))) (searchCache st)"
  by (auto simp: state_ok_def getDatabase_def Let_def split: option.splits)

lemma cache_get_hit:
  "cache_get c now k = (Some v, c') \<Longrightarrow> \<exists>e \<in> set c. entry_key e = k \<and> entry_value e = v"
  by (auto simp: cache_get_def find_Some_iff split: option.splits if_splits)

lemma cache_get_subset: "set (snd (cache_get c now k)) \<subseteq> set c"
  by (auto simp: cache_get_def find_Some_iff split: option.splits if_splits)


lemma cache_set_subset:
  "set (cache_set c now k v) \<subseteq> insert \<lparr>entry_key = k, entry_value = v, entry_start = now\<rparr> (set c)"
  by (auto simp: cache_set_def dest!: in_set_takeD)

lemma cacheKey_of_fst: "cacheKey_of sq opts = (a, b, c) \<Longrightarrow> a = sq \<and> b = opts"
  by (auto simp: cacheKey_of_def Let_def)

lemma cache_hit_value:
  assumes "list_all (entry_ok d) c" and "cache_get c now (cacheKey_of sq opts) = (Some v, c')"
  shows "buildSearchPatterns sq \<noteq> [] \<and> fst (search_miss d sq opts) = Inr v"
proof -
  from cache_get_hit [OF assms(2)] obtain e
    where e: "e \<in> set c" "entry_key e = cacheKey_of sq opts" "entry_value e = v" by blast
  from assms(1) e(1) have ok: "entry_ok d e" by (simp add: list_all_iff)
  obtain a b x y where k: "cacheKey_of sq opts = (a, b, x, y)" by (cases "cacheKey_of sq opts") auto
  with cacheKey_of_fst [of sq opts a b "(x, y)"] have "a = sq" "b = opts" by auto
  with ok e k show ?thesis by (simp add: entry_ok_def)
qed

lemma searchDocuments_value:
  assumes "state_ok st"
  shows "fst (searchDocuments st now q opts) = search_value (fst (getDatabase st)) (sanitizeQuery q) opts"
proof -
  obtain d st1 where g: "getDatabase st = (d, st1)" by (cases "getDatabase st") auto
  have c1: "searchCache st1 = searchCache st" using getDatabase_facts [of st] g by simp
  have ok: "list_all (entry_ok d) (searchCache st)" using state_ok_getDatabase [OF assms] g by simp
  obtain r c' where cg: "cache_get (searchCache st) now (cacheKey_of (sanitizeQuery q) opts) = (r, c')"
    by (cases "cache_get (searchCache st) now (cacheKey_of (sanitizeQuery q) opts)") auto
  show ?thesis
  proof (cases r)
    case None
    with g c1 cg show ?thesis
      by (simp add: searchDocuments_def search_value_def Let_def split: prod.splits sum.splits)
  next
    case (Some v)
    with cache_hit_value [OF ok] cg
    have "buildSearchPatterns (sanitizeQuery q) \<noteq> []"
      and "fst (search_miss d (sanitizeQuery q) opts) = Inr v" by auto
    with g c1 cg Some show ?thesis
      by (simp add: searchDocuments_def search_value_def Let_def)
  qed
qed

lemma searchDocuments_db:
  "db (snd (searchDocuments st now q opts)) = Some (fst (getDatabase st))
   \<and> disk (snd (searchDocuments st now q opts)) = disk st"
proof -
  obtain d st1 where g: "getDatabase st = (d, st1)" by (cases "getDatabase st") auto
  with getDatabase_facts [of st] have "db st1 = Some d" "disk st1 = disk st" by auto
  with g show ?thesis
    by (simp add: searchDocuments_def Let_def split: prod.splits sum.splits option.splits)
qed

lemma entry_ok_new:
  assumes "buildSearchPatterns sq \<noteq> []" and "fst (search_miss d sq opts) = Inr v"
  shows "entry_ok d \<lparr>entry_key = cacheKey_of sq opts, entry_value = v, entry_start = now\<rparr>"
proof -
  obtain a b x y where k: "cacheKey_of sq opts = (a, b, x, y)" by (cases "cacheKey_of sq opts") auto
  with cacheKey_of_fst [of sq opts a b "(x, y)"] have "a = sq" "b = opts" by auto
  with assms k show ?thesis by (simp add: entry_ok_def)
qed

lemma list_all_subset: "list_all P xs \<Longrightarrow> set ys \<subseteq> set xs \<Longrightarrow> list_all P ys"
  by (auto simp: list_all_iff)

lemma searchDocuments_cache_ok:
  assumes "state_ok st"
  shows "list_all (entry_ok (fst (getDatabase st))) (searchCache (snd (searchDocuments st now q opts)))"
proof -
  obtain d st1 where g: "getDatabase st = (d, st1)" by (cases "getDatabase st") auto
  have c1: "searchCache st1 = searchCache st" using getDatabase_facts [of st] g by simp
  have ok: "list_all (entry_ok d) (searchCache st)" using state_ok_getDatabase [OF assms] g by simp
  obtain r c' where cg: "cache_get (searchCache st) now (cacheKey_of (sanitizeQuery q) opts) = (r, c')"
    by (cases "cache_get (searchCache st) now (cacheKey_of (sanitizeQuery q) opts)") auto
  have ok': "list_all (entry_ok d) c'"
    using cache_get_subset [of "searchCache st" now "cacheKey_of (sanitizeQuery q) opts"] cg ok
    by (auto intro: list_all_subset)
  show ?thesis
  proof (cases r)
    case (Some v)
    with g c1 cg ok' show ?thesis by (simp add: searchDocuments_def Let_def)
  next
    case None
    show ?thesis
    proof (cases "buildSearchPatterns (sanitizeQuery q) = []")
      case True
      with None g c1 cg ok' show ?thesis by (simp add: searchDocuments_def Let_def)
    next
      case False
      obtain res stmts where m: "search_miss d (sanitizeQuery q) opts = (res, stmts)"
        by (cases "search_miss d (sanitizeQuery q) opts") auto
      show ?thesis
      proof (cases res)
        case (Inl e)
        with None False g c1 cg ok' m show ?thesis by (simp add: searchDocuments_def Let_def)
      next
        case (Inr v)
        have new: "entry_ok d \<lparr>entry_key = cacheKey_of (sanitizeQuery q) opts, entry_value = v, entry_start = now\<rparr>"
          using entry_ok_new [OF False, of d opts v now] m Inr by simp
        have "list_all (entry_ok d) (cache_set c' now (cacheKey_of (sanitizeQuery q) opts) v)"
          using cache_set_subset [of c' now "cacheKey_of (sanitizeQuery q) opts" v] ok' new
          by (auto simp: list_all_iff)
        with None False g c1 cg m Inr show ?thesis by (simp add: searchDocuments_def Let_def)
      qed
    qed
  qed
qed

lemma state_ok_searchDocuments:
  "state_ok st \<Longrightarrow> state_ok (snd (searchDocuments st now q opts))"
  using searchDocuments_cache_ok [of st now q opts] searchDocuments_db [of st now q opts]
  by (simp add: state_ok_def)

lemma reachable_state_ok: "reachable st \<Longrightarrow> state_ok st"
proof (induction rule: reachable.induct)
  case (start f)
  show ?case by (simp add: state_ok_def initial_state_def)
next
  case (search st now query options)
  then show ?case by (simp add: state_ok_searchDocuments)
qed

subsection \<open>Queries without terms, repeated queries\<close>

lemma no_terms_no_patterns: "searchTerms_of sq = [] \<longleftrightarrow> buildSearchPatterns sq = []"
  by (simp add: buildSearchPatterns_def)




lemma searchDocuments_same_db:
  "fst (getDatabase (snd (searchDocuments st now q opts))) = fst (getDatabase st)"
  using searchDocuments_db [of st now q opts]
  by (simp add: getDatabase_loaded)

lemma cache_get_front:
  "now - t0 \<le> cache_ttl \<Longrightarrow>
   fst (cache_get (cache_set c t0 k v) now k) = Some v"
  by (simp add: cache_get_def cache_set_def cache_max_def)

lemma miss_then_cached:
  assumes "fst (cache_get (searchCache st) t1 (cacheKey_of (sanitizeQuery q) opts)) = None"
    and "buildSearchPatterns (sanitizeQuery q) \<noteq> []"
    and "fst (searchDocuments st t1 q opts) = Inr rs"
  shows "\<exists>c. searchCache (snd (searchDocuments st t1 q opts))
               = cache_set c t1 (cacheKey_of (sanitizeQuery q) opts) rs"
proof -
  obtain d st1 where g: "getDatabase st = (d, st1)" by (cases "getDatabase st") auto
  have c1: "searchCache st1 = searchCache st" using getDatabase_facts [of st] g by simp
  obtain c' where cg: "cache_get (searchCache st) t1 (cacheKey_of (sanitizeQuery q) opts) = (None, c')"
    using assms(1) by (cases "cache_get (searchCache st) t1 (cacheKey_of (sanitizeQuery q) opts)") auto
  obtain res stmts where m: "search_miss d (sanitizeQuery q) opts = (res, stmts)"
    by (cases "search_miss d (sanitizeQuery q) opts") auto
  from assms(2,3) g c1 cg m show ?thesis
    by (cases res) (auto simp: searchDocuments_def Let_def)
qed

subsection \<open>The shape of a result list\<close>

lemma executeSearch_Some:
  "executeSearch (Some t) (searchTerms_of sq) sq info c s n = Inr (scored t sq info c s n)"
  by (simp add: executeSearch_def scored_def buildSearchPatterns_def)

lemma executeSearch_None: "executeSearch None ts sq info c s n = Inl ''no such table: chunks''"
  by (simp add: executeSearch_def)

lemma length_sort_by_score: "length (sort_by_score xs) = length xs"
  by (simp add: sort_by_score_def)



lemma slice0_take: "0 \<le> e \<Longrightarrow> slice0 xs e = take (nat e) xs"
  by (simp add: slice0_def)



lemma search_attempts_Some:
  "search_attempts (Some t) (searchTerms_of sq) sq info used c s maxR =
     (if used \<and> int (length (scored t sq info c s (sampleSize_of c s maxR))) < maxR
      then (Inr (widened maxR (scored t sq info c s (sampleSize_of c s maxR))
                   (scored t sq info c None (sampleSize_of c s maxR))
                   (scored t sq info None None 500)),
            snd (search_attempts (Some t) (searchTerms_of sq) sq info used c s maxR))
      else (Inr (scored t sq info c s (sampleSize_of c s maxR)),
            snd (search_attempts (Some t) (searchTerms_of sq) sq info used c s maxR)))"
  by (simp add: search_attempts_def executeSearch_Some widened_def sampleSize_of_def Let_def)

lemma search_attempts_None:
  "fst (search_attempts None ts sq info used c s maxR) = Inl ''no such table: chunks''"
  by (simp add: search_attempts_def executeSearch_None Let_def)

lemma widened_cases:
  "widened maxR f c u = f \<or> widened maxR f c u = c \<or> widened maxR f c u = u"
  by (simp add: widened_def Let_def)

lemma widened_length: "length f \<le> length (widened maxR f c u)"
  by (simp add: widened_def Let_def)

lemma fst_search_attempts_Some:
  "fst (search_attempts (Some t) (searchTerms_of sq) sq info used c s maxR) =
     Inr (if used \<and> int (length (scored t sq info c s (sampleSize_of c s maxR))) < maxR
          then widened maxR (scored t sq info c s (sampleSize_of c s maxR))
                 (scored t sq info c None (sampleSize_of c s maxR))
                 (scored t sq info None None 500)
          else scored t sq info c s (sampleSize_of c s maxR))"
  by (subst search_attempts_Some) simp

lemma search_attempts_shape:
  assumes "fst (search_attempts d (searchTerms_of sq) sq info used c s maxR) = Inr r"
  shows "\<exists>t c' s' n. d = Some t \<and> r = scored t sq info c' s' n"
proof (cases d)
  case None
  with assms show ?thesis by (simp add: search_attempts_None)
next
  case (Some t)
  define f where "f = scored t sq info c s (sampleSize_of c s maxR)"
  define w where "w = widened maxR f (scored t sq info c None (sampleSize_of c s maxR))
                        (scored t sq info None None 500)"
  from assms Some have "r = (if used \<and> int (length f) < maxR then w else f)"
    unfolding f_def w_def by (simp add: fst_search_attempts_Some)
  then have "r = f \<or> r = w" by (simp split: if_splits)
  moreover have "w = f \<or> w = scored t sq info c None (sampleSize_of c s maxR)
      \<or> w = scored t sq info None None 500"
    unfolding w_def by (rule widened_cases)
  ultimately have "r = scored t sq info c s (sampleSize_of c s maxR)
      \<or> r = scored t sq info c None (sampleSize_of c s maxR)
      \<or> r = scored t sq info None None 500"
    by (auto simp: f_def)
  with Some show ?thesis by blast
qed

lemma search_miss_unfold:
  "search_miss d sq opts =
     (case search_attempts d (searchTerms_of sq) sq
             (if usedIntentFilter_of opts (detectIntent sq) then Some (intent_info sq) else None)
             (usedIntentFilter_of opts (detectIntent sq))
             (fst (snd (snd (cacheKey_of sq opts)))) (snd (snd (snd (cacheKey_of sq opts))))
             (maxResults_of opts) of
        (Inl e, stmts) \<Rightarrow> (Inl e, stmts)
      | (Inr results, stmts) \<Rightarrow> (Inr (slice0 results (maxResults_of opts)), stmts))"
  by (simp add: search_miss_def intent_info_def Let_def)

lemma search_miss_shape:
  assumes "fst (search_miss d sq opts) = Inr rs"
  shows "\<exists>t info c s n. d = Some t \<and> rs = slice0 (scored t sq info c s n) (maxResults_of opts)"
proof -
  define info where "info = (if usedIntentFilter_of opts (detectIntent sq) then Some (intent_info sq) else None)"
  define c where "c = fst (snd (snd (cacheKey_of sq opts)))"
  define s where "s = snd (snd (snd (cacheKey_of sq opts)))"
  obtain res stmts where a: "search_attempts d (searchTerms_of sq) sq info
      (usedIntentFilter_of opts (detectIntent sq)) c s (maxResults_of opts) = (res, stmts)"
    by (rule prod.exhaust)
  with assms obtain r where r: "res = Inr r" "rs = slice0 r (maxResults_of opts)"
    by (cases res) (auto simp: search_miss_unfold info_def c_def s_def)
  from a r(1) have "fst (search_attempts d (searchTerms_of sq) sq info
      (usedIntentFilter_of opts (detectIntent sq)) c s (maxResults_of opts)) = Inr r" by simp
  from search_attempts_shape [OF this] obtain t c' s' n
    where "d = Some t" "r = scored t sq info c' s' n" by blast
  with r(2) show ?thesis by blast
qed

lemma searchDocuments_shape:
  assumes "reachable st" and "fst (searchDocuments st now q opts) = Inr rs"
  shows "rs = [] \<or> (\<exists>t info c s n. rs = slice0 (scored t (sanitizeQuery q) info c s n) (maxResults_of opts))"
proof -
  have v: "search_value (fst (getDatabase st)) (sanitizeQuery q) opts = Inr rs"
    using searchDocuments_value [OF reachable_state_ok [OF assms(1)] ] assms(2) by simp
  show ?thesis
  proof (cases "buildSearchPatterns (sanitizeQuery q) = []")
    case True
    with v show ?thesis by (simp add: search_value_def)
  next
    case False
    with v have "fst (search_miss (fst (getDatabase st)) (sanitizeQuery q) opts) = Inr rs"
      by (simp add: search_value_def split: sum.splits)
    from search_miss_shape [OF this] show ?thesis by blast
  qed
qed

lemma maxResults_of_pos:
  "maxResults opts = None \<or> maxResults opts = Some 0 \<Longrightarrow> maxResults_of opts = 5"
  "maxResults opts = Some m \<Longrightarrow> 1 \<le> m \<Longrightarrow> maxResults_of opts = m"
  by (auto simp: maxResults_of_def)

subsection \<open>Examples on the small index\<close>

lemma example_reachable: "reachable example_state"
  unfolding example_state_def by (rule reachable.start)

lemma example_database: "fst (getDatabase example_state) = Some example_tables"
  by (simp add: example_state_def initial_state_def getDatabase_def Let_def)

lemma example_search_zz:
  "fst (searchDocuments example_state 0 ''zz'' (no_options\<lparr>maxResults := Some 0\<rparr>)) =
     Inr (map (score_row [''zz''] ''zz'' None)
            [rest_row, apex_row, lwc_row])"
  by code_simp

lemma example_search_apex_zz:
  "fst (searchDocuments example_state 0 ''apex zz'' no_options) =
     Inr (map (score_row [''apex'', ''zz''] ''apex zz'' (Some (intent_info ''apex zz'')))
            [apex_row, rest_row, lwc_row])"
  by code_simp

lemma detectIntent_apex_zz:
  "detectIntent ''apex zz'' =
     \<lparr>intent_category = Some ''core_platform'', intent_subcategory = Some ''apex'',
      intent_confidence = medium, matchedPatterns = [''apex''], totalWeight = 10\<rparr>"
  by code_simp

lemma sanitize_apex_zz:
  "sanitizeQuery ''apex zz'' = ''apex zz'' \<and> searchTerms_of ''apex zz'' = [''apex'', ''zz'']"
  by code_simp

lemma filtered_apex_zz:
  "length (sql_select example_tables (buildSearchPatterns ''apex zz'')
             (Some ''core_platform'') (Some ''apex'') 100) = 1"
  by code_simp

subsection \<open>The number of results\<close>

text \<open>
  C10, as the specification states it, fails: \<open>options.maxResults || 5\<close> takes a
  \<open>maxResults\<close> of 0 for an absent one, so a search with \<open>maxResults = 0\<close>
  returns up to five results, here three, and not at most zero.
\<close>

theorem maxResults_zero_counterexample:
  "maxResults (no_options\<lparr>maxResults := Some 0\<rparr>) = Some 0
   \<and> fst (searchDocuments example_state 0 ''zz'' (no_options\<lparr>maxResults := Some 0\<rparr>)) =
       Inr (map (score_row [''zz''] ''zz'' None)
              [rest_row, apex_row, lwc_row])
   \<and> \<not> int (length (map (score_row [''zz''] ''zz'' None)
              [rest_row, apex_row, lwc_row]))
         \<le> 0"
  by (simp add: example_search_zz)

text \<open>
  C10, amended. For every query and every options value whose \<open>maxResults\<close> is at
  least 1, a search returns at most \<open>maxResults\<close> results, and at most 5 when
  \<open>maxResults\<close> is absent or 0; in every state the query path can reach and on every
  path, the cache hit included.
\<close>

theorem result_count_bound:
  assumes "reachable st" and "fst (searchDocuments st now q opts) = Inr rs"
  shows "(maxResults opts = None \<or> maxResults opts = Some 0 \<longrightarrow> length rs \<le> 5)
         \<and> (\<forall>m. maxResults opts = Some m \<and> 1 \<le> m \<longrightarrow> int (length rs) \<le> m)"
proof -
  from searchDocuments_shape [OF assms] have
    "rs = [] \<or> (\<exists>xs. rs = slice0 xs (maxResults_of opts))" by blast
  then have b: "0 \<le> maxResults_of opts \<longrightarrow> int (length rs) \<le> maxResults_of opts"
    by (auto simp: slice0_def)
  show ?thesis
  proof (intro conjI impI allI)
    assume "maxResults opts = None \<or> maxResults opts = Some 0"
    with maxResults_of_pos(1) b show "length rs \<le> 5" by auto
  next
    fix m assume "maxResults opts = Some m \<and> 1 \<le> m"
    with maxResults_of_pos(2) [of opts m] b show "int (length rs) \<le> m" by auto
  qed
qed

theorem result_count_bound_witness:
  "reachable example_state
   \<and> maxResults no_options = None
   \<and> fst (searchDocuments example_state 0 ''apex zz'' no_options) =
       Inr (map (score_row [''apex'', ''zz''] ''apex zz'' (Some (intent_info ''apex zz'')))
            [apex_row, rest_row, lwc_row])
   \<and> length (map (score_row [''apex'', ''zz''] ''apex zz'' (Some (intent_info ''apex zz'')))
            [apex_row, rest_row, lwc_row]) \<le> 5"
  using result_count_bound [OF example_reachable example_search_apex_zz]
    example_reachable example_search_apex_zz
  by (simp add: no_options_def)

subsection \<open>Fallback widening\<close>

lemma cacheKey_of_used:
  "usedIntentFilter_of opts (detectIntent sq) \<Longrightarrow>
     cacheKey_of sq opts =
       (sq, opts, intent_category (detectIntent sq), intent_subcategory (detectIntent sq))"
  by (simp add: cacheKey_of_def Let_def)

lemma fst_search_miss:
  "fst (search_miss d sq opts) =
     (case fst (search_attempts d (searchTerms_of sq) sq
             (if usedIntentFilter_of opts (detectIntent sq) then Some (intent_info sq) else None)
             (usedIntentFilter_of opts (detectIntent sq))
             (fst (snd (snd (cacheKey_of sq opts)))) (snd (snd (snd (cacheKey_of sq opts))))
             (maxResults_of opts)) of
        Inl e \<Rightarrow> Inl e
      | Inr results \<Rightarrow> Inr (slice0 results (maxResults_of opts)))"
  by (simp add: search_miss_unfold split: prod.splits sum.splits)

lemma search_miss_used:
  assumes "usedIntentFilter_of opts (detectIntent sq)"
  shows "fst (search_miss (Some t) sq opts) =
     Inr (slice0
       (if int (length (scored t sq (Some (intent_info sq)) (intent_category (detectIntent sq))
                          (intent_subcategory (detectIntent sq))
                          (sampleSize_of (intent_category (detectIntent sq))
                             (intent_subcategory (detectIntent sq)) (maxResults_of opts))))
           < maxResults_of opts
        then widened (maxResults_of opts)
               (scored t sq (Some (intent_info sq)) (intent_category (detectIntent sq))
                  (intent_subcategory (detectIntent sq))
                  (sampleSize_of (intent_category (detectIntent sq))
                     (intent_subcategory (detectIntent sq)) (maxResults_of opts)))
               (scored t sq (Some (intent_info sq)) (intent_category (detectIntent sq)) None
                  (sampleSize_of (intent_category (detectIntent sq))
                     (intent_subcategory (detectIntent sq)) (maxResults_of opts)))
               (scored t sq (Some (intent_info sq)) None None 500)
        else scored t sq (Some (intent_info sq)) (intent_category (detectIntent sq))
               (intent_subcategory (detectIntent sq))
               (sampleSize_of (intent_category (detectIntent sq))
                  (intent_subcategory (detectIntent sq)) (maxResults_of opts)))
       (maxResults_of opts))"
  using assms
  by (simp add: fst_search_miss cacheKey_of_used fst_search_attempts_Some)

lemma sampleSize_used:
  "usedIntentFilter_of opts i \<Longrightarrow>
     sampleSize_of (intent_category i) (intent_subcategory i) m = max (m * 10) 100"
  by (simp add: usedIntentFilter_of_def sampleSize_of_def)

text \<open>
  C6. Where the intent filter applies and the filtered attempt has fewer results than
  \<open>maxResults\<close>, the search returns the first \<open>maxResults\<close> results of the widened
  list: the category-only attempt replaces the filtered one only if it has strictly more
  results, and the unfiltered attempt replaces the current list only if that is still
  short of \<open>maxResults\<close> and the unfiltered attempt has strictly more results. The
  returned list is at least as long as the filtered attempt.
\<close>

theorem fallback_monotone:
  assumes "reachable st"
    and "fst (getDatabase st) = Some t"
    and "sq = sanitizeQuery q"
    and "searchTerms_of sq \<noteq> []"
    and "usedIntentFilter_of opts (detectIntent sq)"
    and "maxR = maxResults_of opts"
    and "filtered = scored t sq (Some (intent_info sq)) (intent_category (detectIntent sq))
                      (intent_subcategory (detectIntent sq)) (max (maxR * 10) 100)"
    and "categoryOnly = scored t sq (Some (intent_info sq)) (intent_category (detectIntent sq))
                      None (max (maxR * 10) 100)"
    and "unfiltered = scored t sq (Some (intent_info sq)) None None 500"
    and "int (length filtered) < maxR"
  shows "fst (searchDocuments st now q opts) =
           Inr (take (nat maxR) (widened maxR filtered categoryOnly unfiltered))
         \<and> length filtered \<le> length (take (nat maxR) (widened maxR filtered categoryOnly unfiltered))
         \<and> (widened maxR filtered categoryOnly unfiltered = categoryOnly
              \<longrightarrow> categoryOnly = filtered \<or> length filtered < length categoryOnly)
         \<and> (widened maxR filtered categoryOnly unfiltered = unfiltered
              \<longrightarrow> unfiltered = filtered \<or> unfiltered = categoryOnly
                  \<or> (length filtered < length unfiltered \<and> length categoryOnly < length unfiltered))"
proof -
  have v: "fst (searchDocuments st now q opts) = search_value (Some t) sq opts"
    using searchDocuments_value [OF reachable_state_ok [OF assms(1)] ] assms(2,3) by simp
  have pos: "0 \<le> maxR" using assms(10) by simp
  have "fst (search_miss (Some t) sq opts) = Inr (slice0 (widened maxR filtered categoryOnly unfiltered) maxR)"
    using assms(5,6,7,8,9,10)
    by (simp add: search_miss_used [OF assms(5)] sampleSize_used [OF assms(5)])
  with v assms(4) pos have 1: "fst (searchDocuments st now q opts) =
      Inr (take (nat maxR) (widened maxR filtered categoryOnly unfiltered))"
    by (simp add: search_value_def no_terms_no_patterns slice0_take)
  have 2: "length filtered \<le> length (take (nat maxR) (widened maxR filtered categoryOnly unfiltered))"
    using widened_length [of filtered maxR categoryOnly unfiltered] assms(10) by simp
  have 3: "widened maxR filtered categoryOnly unfiltered = categoryOnly
              \<longrightarrow> categoryOnly = filtered \<or> length filtered < length categoryOnly"
    by (auto simp: widened_def Let_def split: if_splits)
  have 4: "widened maxR filtered categoryOnly unfiltered = unfiltered
              \<longrightarrow> unfiltered = filtered \<or> unfiltered = categoryOnly
                  \<or> (length filtered < length unfiltered \<and> length categoryOnly < length unfiltered)"
    by (auto simp: widened_def Let_def split: if_splits)
  from 1 2 3 4 show ?thesis by blast
qed

theorem fallback_monotone_witness:
  "reachable example_state
   \<and> fst (getDatabase example_state) = Some example_tables
   \<and> searchTerms_of (sanitizeQuery ''apex zz'') \<noteq> []
   \<and> usedIntentFilter_of no_options (detectIntent (sanitizeQuery ''apex zz''))
   \<and> length (scored example_tables ''apex zz'' (Some (intent_info ''apex zz''))
               (Some ''core_platform'') (Some ''apex'') 100) = 1
   \<and> maxResults_of no_options = 5
   \<and> fst (searchDocuments example_state 0 ''apex zz'' no_options) =
       Inr (take 5 (widened 5
              (scored example_tables ''apex zz'' (Some (intent_info ''apex zz''))
                 (Some ''core_platform'') (Some ''apex'') 100)
              (scored example_tables ''apex zz'' (Some (intent_info ''apex zz''))
                 (Some ''core_platform'') None 100)
              (scored example_tables ''apex zz'' (Some (intent_info ''apex zz'')) None None 500)))
   \<and> 1 \<le> length (take 5 (widened 5
              (scored example_tables ''apex zz'' (Some (intent_info ''apex zz''))
                 (Some ''core_platform'') (Some ''apex'') 100)
              (scored example_tables ''apex zz'' (Some (intent_info ''apex zz''))
                 (Some ''core_platform'') None 100)
              (scored example_tables ''apex zz'' (Some (intent_info ''apex zz'')) None None 500)))"
proof -
  have sq: "''apex zz'' = sanitizeQuery ''apex zz''" by (simp add: sanitize_apex_zz)
  have ts: "searchTerms_of ''apex zz'' \<noteq> []" by (simp add: sanitize_apex_zz)
  have used: "usedIntentFilter_of no_options (detectIntent ''apex zz'')"
    by (simp add: usedIntentFilter_of_def no_options_def truthy_def detectIntent_apex_zz)
  have m: "(5::int) = maxResults_of no_options" by (simp add: maxResults_of_def no_options_def)
  have len: "length (scored example_tables ''apex zz'' (Some (intent_info ''apex zz''))
               (Some ''core_platform'') (Some ''apex'') 100) = 1"
    by (simp add: scored_def length_sort_by_score filtered_apex_zz)
  have f: "scored example_tables ''apex zz'' (Some (intent_info ''apex zz''))
               (Some ''core_platform'') (Some ''apex'') 100
           = scored example_tables ''apex zz'' (Some (intent_info ''apex zz''))
               (intent_category (detectIntent ''apex zz''))
               (intent_subcategory (detectIntent ''apex zz'')) (max (5 * 10) 100)"
    by (simp add: detectIntent_apex_zz)
  have c: "scored example_tables ''apex zz'' (Some (intent_info ''apex zz''))
               (Some ''core_platform'') None 100
           = scored example_tables ''apex zz'' (Some (intent_info ''apex zz''))
               (intent_category (detectIntent ''apex zz'')) None (max (5 * 10) 100)"
    by (simp add: detectIntent_apex_zz)
  have lt: "int (length (scored example_tables ''apex zz'' (Some (intent_info ''apex zz''))
               (Some ''core_platform'') (Some ''apex'') 100)) < 5"
    by (simp add: len)
  from fallback_monotone [OF example_reachable example_database sq ts used m f c refl lt, of 0]
    example_reachable example_database ts used len m sq
  show ?thesis by simp
qed

subsection \<open>Scores\<close>





lemma score_row_priority:
  "priority (document (score_row ts sq info (d, c))) =
     (case doc_priority d of None \<Rightarrow> 1 | Some p \<Rightarrow> if p = 0 then 1 else p)"
  by (simp add: score_row_def Let_def)













subsection \<open>Queries without terms and repeated queries: the properties\<close>



text \<open>
  C9. In every state the query path can reach, a search repeated with the same query and
  options within the time to live returns what the first call returned. When the first
  call found nothing in the cache and computed a list for a query with terms, the second
  call finds exactly that list in the cache under the key of the sanitized query, the
  options and the effective filters.
\<close>

theorem cache_transparency:
  assumes "reachable st" and "t1 \<le> t2" and "t2 \<le> t1 + cache_ttl"
  shows "fst (searchDocuments (snd (searchDocuments st t1 q opts)) t2 q opts)
           = fst (searchDocuments st t1 q opts)
         \<and> (fst (cache_get (searchCache st) t1 (cacheKey_of (sanitizeQuery q) opts)) = None
            \<and> buildSearchPatterns (sanitizeQuery q) \<noteq> []
            \<and> fst (searchDocuments st t1 q opts) = Inr rs
            \<longrightarrow> fst (cache_get (searchCache (snd (searchDocuments st t1 q opts))) t2
                        (cacheKey_of (sanitizeQuery q) opts)) = Some rs)"
proof -
  have ok: "state_ok st" by (rule reachable_state_ok [OF assms(1)])
  have ok': "state_ok (snd (searchDocuments st t1 q opts))" by (rule state_ok_searchDocuments [OF ok])
  have 1: "fst (searchDocuments (snd (searchDocuments st t1 q opts)) t2 q opts)
           = fst (searchDocuments st t1 q opts)"
    by (simp add: searchDocuments_value [OF ok] searchDocuments_value [OF ok'] searchDocuments_same_db)
  have 2: "fst (cache_get (searchCache (snd (searchDocuments st t1 q opts))) t2
                        (cacheKey_of (sanitizeQuery q) opts)) = Some rs"
    if "fst (cache_get (searchCache st) t1 (cacheKey_of (sanitizeQuery q) opts)) = None"
      "buildSearchPatterns (sanitizeQuery q) \<noteq> []" "fst (searchDocuments st t1 q opts) = Inr rs"
  proof -
    from miss_then_cached [OF that] obtain c where
      "searchCache (snd (searchDocuments st t1 q opts))
         = cache_set c t1 (cacheKey_of (sanitizeQuery q) opts) rs" ..
    moreover have "t2 - t1 \<le> cache_ttl" using assms(2,3) by simp
    ultimately show ?thesis by (simp add: cache_get_front)
  qed
  from 1 2 show ?thesis by blast
qed

lemma patterns_zz: "buildSearchPatterns (sanitizeQuery ''zz'') \<noteq> []"
  by code_simp

theorem cache_transparency_witness:
  "reachable example_state \<and> (0::nat) \<le> 1000 \<and> 1000 \<le> 0 + cache_ttl
   \<and> fst (cache_get (searchCache example_state) 0
            (cacheKey_of (sanitizeQuery ''zz'') (no_options\<lparr>maxResults := Some 0\<rparr>))) = None
   \<and> fst (searchDocuments
            (snd (searchDocuments example_state 0 ''zz'' (no_options\<lparr>maxResults := Some 0\<rparr>)))
            1000 ''zz'' (no_options\<lparr>maxResults := Some 0\<rparr>))
       = fst (searchDocuments example_state 0 ''zz'' (no_options\<lparr>maxResults := Some 0\<rparr>))
   \<and> fst (cache_get
            (searchCache (snd (searchDocuments example_state 0 ''zz''
                                 (no_options\<lparr>maxResults := Some 0\<rparr>))))
            1000 (cacheKey_of (sanitizeQuery ''zz'') (no_options\<lparr>maxResults := Some 0\<rparr>)))
       = Some (map (score_row [''zz''] ''zz'' None)
            [rest_row, apex_row, lwc_row])"
proof -
  have t: "(0::nat) \<le> 1000" "(1000::nat) \<le> 0 + cache_ttl" by (simp_all add: cache_ttl_def)
  have m: "fst (cache_get (searchCache example_state) 0
            (cacheKey_of (sanitizeQuery ''zz'') (no_options\<lparr>maxResults := Some 0\<rparr>))) = None"
    by (simp add: example_state_def initial_state_def cache_get_def)
  from cache_transparency [OF example_reachable t, of "''zz''" "no_options\<lparr>maxResults := Some 0\<rparr>"]
    m patterns_zz example_search_zz example_reachable t
  show ?thesis by simp
qed

section \<open>The size of a chunk\<close>

lemma longest_run_ge: "n \<le> longest_run n s"
  by (induction s arbitrary: n) (auto simp: le_max_iff_disj dest: Suc_leD)

lemma longest_run_mono: "n \<le> n' \<Longrightarrow> longest_run n s \<le> longest_run n' s"
  by (induction s arbitrary: n n') (auto simp: le_max_iff_disj)

lemma longest_run_suffix: "longest_run 0 s \<le> longest_run n (ps @ s)"
proof (induction ps arbitrary: n)
  case Nil
  show ?case by (simp add: longest_run_mono)
next
  case (Cons c ps)
  show ?case using Cons [of 0] Cons [of "Suc n"] by (auto simp: le_max_iff_disj)
qed

lemma longest_run_prefix: "longest_run n w \<le> longest_run n (w @ ss)"
proof (induction w arbitrary: n)
  case Nil
  show ?case by (simp add: longest_run_ge)
next
  case (Cons c w)
  show ?case using Cons [of 0] Cons [of "Suc n"] by (auto simp: le_max_iff_disj)
qed

lemma longest_word_sublist: "sublist w s \<Longrightarrow> longest_word w \<le> longest_word s"
proof -
  assume "sublist w s"
  then obtain ps ss where s: "s = ps @ w @ ss" by (auto simp: sublist_def)
  have "longest_run 0 w \<le> longest_run 0 (w @ ss)" by (rule longest_run_prefix)
  also have "\<dots> \<le> longest_run 0 (ps @ (w @ ss))" by (rule longest_run_suffix)
  finally show ?thesis by (simp add: longest_word_def s)
qed

lemma longest_run_word: "\<forall>c \<in> set w. \<not> is_space c \<Longrightarrow> longest_run n w = n + length w"
  by (induction w arbitrary: n) auto

lemma longest_word_word: "\<forall>c \<in> set w. \<not> is_space c \<Longrightarrow> longest_word w = length w"
  by (simp add: longest_word_def longest_run_word)

lemma length_trim: "length (trim s) \<le> length s"
proof -
  have "length (dropWhile is_space (rev (dropWhile is_space s))) \<le> length (rev (dropWhile is_space s))"
    by (rule length_dropWhile_le)
  also have "\<dots> \<le> length s" by (simp add: length_dropWhile_le)
  finally show ?thesis by (simp add: trim_def)
qed

lemma sublist_trim: "sublist (trim s) s"
proof -
  have a: "suffix (dropWhile is_space s) s" by (rule suffix_dropWhile)
  have "suffix (dropWhile is_space (rev (dropWhile is_space s))) (rev (dropWhile is_space s))"
    by (rule suffix_dropWhile)
  then have "prefix (trim s) (dropWhile is_space s)"
    by (simp add: trim_def suffix_to_prefix)
  then have "sublist (trim s) (dropWhile is_space s)" by (rule prefix_imp_sublist)
  with a show ?thesis by (meson sublist_order.order_trans suffix_imp_sublist)
qed

text \<open>The pieces of every splitting function are contiguous parts of its input.\<close>

lemma split_scan_sublist:
  "p \<in> set (split_scan r acc prev s) \<Longrightarrow> sublist p (acc @ s)"
proof (induction r acc prev s rule: split_scan.induct)
  case (1 r acc prev)
  then show ?case by simp
next
  case (2 r acc prev c s)
  show ?case
  proof (cases "match_at r prev (c # s)")
    case None
    with 2 show ?thesis by (simp del: sum_list_eq_0_iff)
  next
    case (Some m)
    obtain i ls where m: "m = (i, ls)" by (cases m)
    show ?thesis
    proof (cases "sum_list ls = 0")
      case True
      with 2 Some m show ?thesis by (simp del: sum_list_eq_0_iff)
    next
      case False
      with "2.prems" Some m have "p = acc \<or> p \<in> set (split_scan r []
          (Some (last (take (sum_list ls) (c # s)))) (drop (sum_list ls) (c # s)))"
        by (simp del: sum_list_eq_0_iff)
      then show ?thesis
      proof
        assume "p = acc" then show ?thesis by (simp add: sublist_append_rightI)
      next
        assume "p \<in> set (split_scan r []
          (Some (last (take (sum_list ls) (c # s)))) (drop (sum_list ls) (c # s)))"
        with "2.IH"(3) [OF Some m [symmetric] False] 
        have "sublist p (drop (sum_list ls) (c # s))" by simp
        moreover have "suffix (drop (sum_list ls) (c # s)) (acc @ c # s)"
          by (meson suffix_drop suffix_appendI suffix_order.order_trans suffixI)
        ultimately show ?thesis by (meson sublist_order.order_trans suffix_imp_sublist)
      qed
    qed
  qed
qed


lemma sublist_drop: "sublist (drop n s) s"
  unfolding sublist_def by (rule exI [of _ "take n s"], rule exI [of _ "[]"]) simp

lemma sublist_take_drop: "sublist (take n s) s"
  unfolding sublist_def by (rule exI [of _ "[]"], rule exI [of _ "drop n s"]) simp

lemma match_scan_sublist:
  "p \<in> set (match_scan r prev s) \<Longrightarrow> sublist p s"
proof (induction r prev s rule: match_scan.induct)
  case (1 r prev)
  then show ?case by simp
next
  case (2 r prev c s)
  show ?case
  proof (cases "match_at r prev (c # s)")
    case None
    with 2 have "sublist p s" by (simp del: sum_list_eq_0_iff)
    then show ?thesis by (simp add: sublist_Cons_right)
  next
    case (Some m)
    obtain i ls where m: "m = (i, ls)" by (cases m)
    show ?thesis
    proof (cases "sum_list ls = 0")
      case True
      with 2 Some m have "sublist p s" by (simp del: sum_list_eq_0_iff)
      then show ?thesis by (simp add: sublist_Cons_right)
    next
      case False
      with "2.prems" Some m have "p = take (sum_list ls) (c # s) \<or> p \<in> set (match_scan r
          (Some (last (take (sum_list ls) (c # s)))) (drop (sum_list ls) (c # s)))"
        by (simp del: sum_list_eq_0_iff)
      then show ?thesis
      proof
        assume "p = take (sum_list ls) (c # s)"
        then show ?thesis by (simp only: sublist_take_drop)
      next
        assume "p \<in> set (match_scan r
          (Some (last (take (sum_list ls) (c # s)))) (drop (sum_list ls) (c # s)))"
        with "2.IH"(3) [OF Some m [symmetric] False]
        have "sublist p (drop (sum_list ls) (c # s))" by simp
        with sublist_drop [of "sum_list ls" "c # s"] show ?thesis
          by (meson sublist_order.order_trans)
      qed
    qed
  qed
qed

lemma section_of_sublist:
  "sec \<in> set (section_of t piece) \<Longrightarrow> sublist (section_content sec) piece"
  by (auto simp: section_of_def Let_def sublist_trim split: if_splits)

lemma sections_scan_sublist:
  "sec \<in> set (sections_scan t acc prev s) \<Longrightarrow> sublist (section_content sec) (acc @ s)"
proof (induction t acc prev s rule: sections_scan.induct)
  case (1 lastTitle acc prev)
  then show ?case by (auto dest: section_of_sublist split: if_splits)
next
  case (2 lastTitle acc prev c s)
  show ?case
  proof (cases "match_at headingPattern prev (c # s)")
    case None
    with 2 show ?thesis by (simp del: sum_list_eq_0_iff)
  next
    case (Some m)
    show ?thesis
    proof (cases "sum_list (snd m) = 0")
      case True
      with 2 Some show ?thesis by (simp del: sum_list_eq_0_iff)
    next
      case False
      with "2.prems" Some have "(acc \<noteq> [] \<and> sec \<in> set (section_of lastTitle acc))
          \<or> sec \<in> set (sections_scan (Some (heading_title (c # s) m)) []
                   (Some (last (take (sum_list (snd m)) (c # s))))
                   (drop (sum_list (snd m)) (c # s)))"
        by (auto simp del: sum_list_eq_0_iff split: if_splits)
      then show ?thesis
      proof
        assume "acc \<noteq> [] \<and> sec \<in> set (section_of lastTitle acc)"
        then have "sublist (section_content sec) acc" by (auto dest: section_of_sublist)
        then show ?thesis by (meson sublist_appendI sublist_order.order_trans sublist_append_rightI)
      next
        assume "sec \<in> set (sections_scan (Some (heading_title (c # s) m)) []
                   (Some (last (take (sum_list (snd m)) (c # s))))
                   (drop (sum_list (snd m)) (c # s)))"
        with "2.IH"(3) [OF Some False]
        have "sublist (section_content sec) (drop (sum_list (snd m)) (c # s))" by simp
        moreover have "suffix (drop (sum_list (snd m)) (c # s)) (acc @ c # s)"
          by (meson suffix_drop suffix_appendI suffix_order.order_trans suffixI)
        ultimately show ?thesis by (meson sublist_order.order_trans suffix_imp_sublist)
      qed
    qed
  qed
qed

lemma splitBySections_sublist:
  "sec \<in> set (splitBySections text) \<Longrightarrow> sublist (section_content sec) text"
  using sections_scan_sublist [of sec None "[]" None "text"]
  by (auto simp: splitBySections_def Let_def split: if_splits)

text \<open>Splitting on white space gives words.\<close>

lemma backtrack_first: "f k \<noteq> None \<Longrightarrow> backtrack f lo k = f k"
  by (subst backtrack.simps) (auto split: option.splits)

lemma match_whitespace:
  "is_space c \<Longrightarrow>
     match_at whitespace_re prev (c # s) = Some (0, [length (takeWhile is_space (c # s))])"
  by (simp add: match_at_def whitespace_re_def backtrack_first Let_def)

lemma match_whitespace_none:
  "\<not> is_space c \<Longrightarrow> match_at whitespace_re prev (c # s) = None"
  by (simp add: match_at_def whitespace_re_def Let_def)

lemma split_whitespace_words:
  "p \<in> set (split_scan whitespace_re acc prev s) \<Longrightarrow> \<forall>c \<in> set acc. \<not> is_space c \<Longrightarrow>
     \<forall>c \<in> set p. \<not> is_space c"
proof (induction s arbitrary: acc prev rule: length_induct)
  case (1 s)
  show ?case
  proof (cases s)
    case Nil
    with "1.prems" show ?thesis by simp
  next
    case (Cons c s')
    show ?thesis
    proof (cases "is_space c")
      case False
      have m: "match_at whitespace_re prev (c # s') = None" by (rule match_whitespace_none [OF False])
      from "1.prems"(1) m Cons have "p \<in> set (split_scan whitespace_re (acc @ [c]) (Some c) s')"
        by simp
      moreover from "1.prems"(2) False have "\<forall>x \<in> set (acc @ [c]). \<not> is_space x" by simp
      moreover have "length s' < length s" using Cons by simp
      ultimately show ?thesis using "1.IH" by blast
    next
      case True
      define k where "k = length (takeWhile is_space (c # s'))"
      have m: "match_at whitespace_re prev (c # s') = Some (0, [k])"
        unfolding k_def by (rule match_whitespace [OF True])
      have pos: "k \<noteq> 0" using True by (simp add: k_def)
      from "1.prems"(1) m pos Cons have "p = acc \<or> p \<in> set (split_scan whitespace_re []
          (Some (last (take k (c # s')))) (drop k (c # s')))"
        by simp
      then show ?thesis
      proof
        assume "p = acc" with "1.prems"(2) show ?thesis by simp
      next
        assume a: "p \<in> set (split_scan whitespace_re []
          (Some (last (take k (c # s')))) (drop k (c # s')))"
        have "length (drop k (c # s')) < length s" using pos Cons by simp
        moreover have "\<forall>x \<in> set ([]::string). \<not> is_space x" by simp
        ultimately show ?thesis using "1.IH" a by blast
      qed
    qed
  qed
qed

lemma split_whitespace_word_length:
  assumes "w \<in> set (split whitespace_re s)"
  shows "length w \<le> longest_word s"
proof -
  from assms have "\<forall>c \<in> set w. \<not> is_space c"
    using split_whitespace_words [of w "[]" None s] by (simp add: split_def)
  then have "length w = longest_word w" by (simp add: longest_word_word)
  also have "\<dots> \<le> longest_word s"
    using split_scan_sublist [of w whitespace_re "[]" None s] assms
    by (simp add: split_def longest_word_sublist)
  finally show ?thesis .
qed


lemma word_fold_bound:
  "\<forall>w \<in> set ws. length w \<le> m \<Longrightarrow> \<forall>x \<in> set cks. length x \<le> Suc m \<Longrightarrow> length cur \<le> Suc m \<Longrightarrow>
     (\<forall>x \<in> set (fst (foldl (word_step m) (cks, cur) ws)). length x \<le> Suc m)
     \<and> length (snd (foldl (word_step m) (cks, cur) ws)) \<le> Suc m"
proof (induction ws arbitrary: cks cur)
  case Nil
  then show ?case by simp
next
  case (Cons w ws)
  have w: "length w \<le> m" using Cons.prems(1) by simp
  have t: "length (trim cur) \<le> Suc m" using length_trim [of cur] Cons.prems(3) by simp
  show ?case
  proof (cases "length cur + length w > m")
    case True
    then have st: "word_step m (cks, cur) w = (cks @ [trim cur], w)"
      by (simp add: word_step_def)
    show ?thesis
      unfolding foldl_Cons st
      by (rule Cons.IH) (use Cons.prems t w in auto)
  next
    case False
    then have st: "word_step m (cks, cur) w
        = (cks, cur @ (if cur \<noteq> [] then '' '' else []) @ w)"
      by (simp add: word_step_def)
    show ?thesis
      unfolding foldl_Cons st
      by (rule Cons.IH) (use Cons.prems False in auto)
  qed
qed

lemma push_trimmed_bound:
  "\<forall>x \<in> set cks. length x \<le> b \<Longrightarrow> length cur \<le> b \<Longrightarrow>
     \<forall>x \<in> set (push_trimmed cks cur). length x \<le> b"
  using length_trim [of cur] by (auto simp: push_trimmed_def)

lemma sentence_fold_bound:
  "\<forall>s \<in> set sentences. \<forall>w \<in> set (split whitespace_re s). length w \<le> m \<Longrightarrow>
   \<forall>x \<in> set cks. length x \<le> Suc m \<Longrightarrow> length cur \<le> Suc m \<Longrightarrow>
     (\<forall>x \<in> set (fst (foldl (sentence_step m) (cks, cur) sentences)). length x \<le> Suc m)
     \<and> length (snd (foldl (sentence_step m) (cks, cur) sentences)) \<le> Suc m"
proof (induction sentences arbitrary: cks cur)
  case Nil
  then show ?case by simp
next
  case (Cons s sentences)
  have ws: "\<forall>w \<in> set (split whitespace_re s). length w \<le> m" using Cons.prems(1) by simp
  have rest: "\<forall>s \<in> set sentences. \<forall>w \<in> set (split whitespace_re s). length w \<le> m"
    using Cons.prems(1) by simp
  have c1: "\<forall>x \<in> set (push_trimmed cks cur). length x \<le> Suc m"
    by (rule push_trimmed_bound [OF Cons.prems(2,3)])
  obtain cks' cur' where st: "sentence_step m (cks, cur) s = (cks', cur')"
    by (cases "sentence_step m (cks, cur) s") auto
  have "(\<forall>x \<in> set cks'. length x \<le> Suc m) \<and> length cur' \<le> Suc m"
  proof (cases "length cur + length s > m")
    case False
    with st Cons.prems(2) show ?thesis by (auto simp: sentence_step_def)
  next
    case True
    show ?thesis
    proof (cases "length s > m")
      case False
      with True st c1 show ?thesis by (auto simp: sentence_step_def Let_def)
    next
      case long: True
      from True long st have "foldl (word_step m) (push_trimmed cks cur, [])
          (split whitespace_re s) = (cks', cur')"
        by (simp add: sentence_step_def Let_def)
      with word_fold_bound [OF ws c1, of "[]"] show ?thesis by simp
    qed
  qed
  then show ?case
    unfolding foldl_Cons st using Cons.IH [OF rest] by blast
qed

lemma sentences_words:
  assumes "longest_word para \<le> m"
    and "s \<in> set (case match_all sentence_re para of None \<Rightarrow> [para] | Some ms \<Rightarrow> ms)"
    and "w \<in> set (split whitespace_re s)"
  shows "length w \<le> m"
proof -
  have "sublist s para"
    using assms(2) match_scan_sublist [of s sentence_re None para]
    by (auto simp: match_all_def split: list.splits)
  then have "longest_word s \<le> m" using longest_word_sublist assms(1) by (meson order_trans)
  with split_whitespace_word_length [OF assms(3)] show ?thesis by simp
qed

lemma splitLongParagraph_bound:
  assumes "longest_word para \<le> m"
  shows "\<forall>x \<in> set (splitLongParagraph para m). length x \<le> Suc m"
proof -
  define sentences where "sentences = (case match_all sentence_re para of None \<Rightarrow> [para] | Some ms \<Rightarrow> ms)"
  have ws: "\<forall>s \<in> set sentences. \<forall>w \<in> set (split whitespace_re s). length w \<le> m"
    unfolding sentences_def using sentences_words [OF assms] by blast
  obtain cks cur where f: "foldl (sentence_step m) ([], []) sentences = (cks, cur)"
    by (cases "foldl (sentence_step m) ([], []) sentences") auto
  from sentence_fold_bound [OF ws, of "[]" "[]"] f
  have "(\<forall>x \<in> set cks. length x \<le> Suc m) \<and> length cur \<le> Suc m" by simp
  then have "\<forall>x \<in> set (push_trimmed cks cur). length x \<le> Suc m"
    using push_trimmed_bound [of cks "Suc m" cur] by blast
  with f show ?thesis by (simp add: splitLongParagraph_def sentences_def Let_def)
qed

lemma paragraph_fold_bound:
  "\<forall>p \<in> set ps. longest_word p \<le> m \<Longrightarrow>
   \<forall>x \<in> set cks. length x \<le> m + 2 \<Longrightarrow> length cur \<le> m + 2 \<Longrightarrow>
     (\<forall>x \<in> set (fst (foldl (paragraph_step m) (cks, cur) ps)). length x \<le> m + 2)
     \<and> length (snd (foldl (paragraph_step m) (cks, cur) ps)) \<le> m + 2"
proof (induction ps arbitrary: cks cur)
  case Nil
  then show ?case by simp
next
  case (Cons p ps)
  have lw: "longest_word p \<le> m" using Cons.prems(1) by simp
  have rest: "\<forall>p \<in> set ps. longest_word p \<le> m" using Cons.prems(1) by simp
  have c1: "\<forall>x \<in> set (push_trimmed cks cur). length x \<le> m + 2"
    by (rule push_trimmed_bound [OF Cons.prems(2,3)])
  have sub: "\<forall>x \<in> set (splitLongParagraph p m). length x \<le> m + 2"
    using splitLongParagraph_bound [OF lw] by auto
  obtain cks' cur' where st: "paragraph_step m (cks, cur) p = (cks', cur')"
    by (cases "paragraph_step m (cks, cur) p") auto
  have "(\<forall>x \<in> set cks'. length x \<le> m + 2) \<and> length cur' \<le> m + 2"
  proof (cases "length cur + length p > m")
    case False
    with st Cons.prems(2) show ?thesis by (auto simp: paragraph_step_def)
  next
    case True
    show ?thesis
    proof (cases "length p > m")
      case False
      with True st c1 show ?thesis by (auto simp: paragraph_step_def Let_def)
    next
      case long: True
      from True long st have c': "cks' = push_trimmed cks cur @ butlast (splitLongParagraph p m)"
        and cur': "cur' = (if splitLongParagraph p m = [] then [] else last (splitLongParagraph p m))"
        by (simp_all add: paragraph_step_def Let_def)
      have "\<forall>x \<in> set (butlast (splitLongParagraph p m)). length x \<le> m + 2"
        using sub by (meson in_set_butlastD)
      with c1 c' have "\<forall>x \<in> set cks'. length x \<le> m + 2" by auto
      moreover have "length cur' \<le> m + 2" using sub cur' by auto
      ultimately show ?thesis by simp
    qed
  qed
  then show ?case
    unfolding foldl_Cons st using Cons.IH [OF rest] by blast
qed

lemma startsWith_length: "startsWith s t \<Longrightarrow> length t \<le> length s"
  by (induction s t rule: startsWith.induct) auto

lemma indexOf_from_bound:
  "indexOf_from i s t = Some k \<Longrightarrow> i \<le> k \<and> (k - i) + length t \<le> length s"
proof (induction s arbitrary: i)
  case Nil
  then show ?case by (auto split: if_splits)
next
  case (Cons c s)
  show ?case
  proof (cases "startsWith (c # s) t")
    case True
    with Cons.prems startsWith_length [OF True] show ?thesis by simp
  next
    case False
    with Cons.prems have "indexOf_from (Suc i) s t = Some k" by simp
    from Cons.IH [OF this] show ?thesis by auto
  qed
qed

lemma with_overlap_bound: "length (with_overlap ov prevChunk c) \<le> length c + ov + 5"
proof -
  define overlap where "overlap = drop (length prevChunk - ov) prevChunk"
  have lo: "length overlap \<le> ov" by (simp add: overlap_def)
  show ?thesis
  proof (cases "indexOf overlap '' ''")
    case None
    then show ?thesis by (simp add: with_overlap_def overlap_def [symmetric] Let_def)
  next
    case (Some k)
    with indexOf_from_bound [of 0 overlap "'' ''" k] have kb: "k + 1 \<le> length overlap"
      by (simp add: indexOf_def)
    show ?thesis
    proof (cases "k > 0")
      case False
      with Some show ?thesis by (simp add: with_overlap_def overlap_def [symmetric] Let_def)
    next
      case True
      with Some have "with_overlap ov prevChunk c = drop (k + 1) overlap @ '' [...] '' @ c"
        by (simp add: with_overlap_def overlap_def [symmetric] Let_def)
      moreover have "length (drop (k + 1) overlap) + 2 \<le> ov" using kb lo True by simp
      ultimately show ?thesis by simp
    qed
  qed
qed

lemma overlap_rest_bound:
  "\<forall>x \<in> set cs. length x \<le> b \<Longrightarrow> \<forall>x \<in> set (overlap_rest ov prevChunk cs). length x \<le> b + ov + 5"
proof (induction cs arbitrary: prevChunk)
  case Nil
  then show ?case by simp
next
  case (Cons c cs)
  have "length (with_overlap ov prevChunk c) \<le> b + ov + 5"
    using with_overlap_bound [of ov prevChunk c] Cons.prems by simp
  moreover have "\<forall>x \<in> set (overlap_rest ov c cs). length x \<le> b + ov + 5"
    using Cons by simp
  ultimately show ?case by simp
qed

lemma addOverlap_bound:
  "\<forall>x \<in> set cs. length x \<le> b \<Longrightarrow> \<forall>x \<in> set (addOverlap cs ov). length x \<le> b + ov + 5"
proof (cases cs)
  case Nil
  then show ?thesis by (simp add: addOverlap_def)
next
  case (Cons c cs')
  assume b: "\<forall>x \<in> set cs. length x \<le> b"
  then have "\<forall>x \<in> set (overlap_rest ov c cs'). length x \<le> b + ov + 5"
    using overlap_rest_bound [of cs' b ov c] Cons by simp
  with b Cons show ?thesis by (auto simp: addOverlap_def)
qed

lemma chunkSection_bound:
  assumes "longest_word s \<le> m"
  shows "\<forall>x \<in> set (chunkSection s m ov). length x \<le> m + ov + 7"
proof (cases "length s \<le> m")
  case True
  then show ?thesis by (simp add: chunkSection_def)
next
  case False
  have ps: "\<forall>p \<in> set (split paragraph_re s). longest_word p \<le> m"
  proof
    fix p assume "p \<in> set (split paragraph_re s)"
    then have "sublist p s" using split_scan_sublist [of p paragraph_re "[]" None s]
      by (simp add: split_def)
    with longest_word_sublist assms show "longest_word p \<le> m" by (meson order_trans)
  qed
  obtain cks cur where f: "foldl (paragraph_step m) ([], []) (split paragraph_re s) = (cks, cur)"
    by (cases "foldl (paragraph_step m) ([], []) (split paragraph_re s)") auto
  from paragraph_fold_bound [OF ps, of "[]" "[]"] f
  have "(\<forall>x \<in> set cks. length x \<le> m + 2) \<and> length cur \<le> m + 2" by simp
  then have "\<forall>x \<in> set (push_trimmed cks cur). length x \<le> m + 2"
    using push_trimmed_bound [of cks "m + 2" cur] by blast
  from addOverlap_bound [OF this, of ov]
  have "\<forall>x \<in> set (addOverlap (push_trimmed cks cur) ov). length x \<le> m + ov + 7"
    by (simp add: add.commute add.left_commute)
  with f False show ?thesis by (simp add: chunkSection_def)
qed

lemma chunkText_contents:
  assumes "c \<in> set (chunkText s opts)"
  shows "\<exists>sec \<in> set (splitBySections s). \<exists>x \<in> set (chunkSection (section_content sec)
          (case maxChunkSize opts of None \<Rightarrow> DEFAULT_maxChunkSize | Some m \<Rightarrow> m)
          (case overlapSize opts of None \<Rightarrow> DEFAULT_overlapSize | Some v \<Rightarrow> v)).
        content c = trim x"
proof -
  define m where "m = (case maxChunkSize opts of None \<Rightarrow> DEFAULT_maxChunkSize | Some m \<Rightarrow> m)"
  define ov where "ov = (case overlapSize opts of None \<Rightarrow> DEFAULT_overlapSize | Some v \<Rightarrow> v)"
  define pieces where "pieces = concat (map (section_chunks m ov) (splitBySections s))"
  from assms obtain i ct t where e: "(i, (ct, t)) \<in> set (enumerate 0 pieces)" and ct: "content c = ct"
    unfolding chunkText_def Let_def m_def [symmetric] ov_def [symmetric] pieces_def [symmetric]
    by auto
  from e have "(ct, t) \<in> set pieces" by (auto simp: in_set_enumerate_eq dest: nth_mem)
  then obtain sec where sec: "sec \<in> set (splitBySections s)"
    and "(ct, t) \<in> set (section_chunks m ov sec)"
    unfolding pieces_def by auto
  then obtain x where "x \<in> set (chunkSection (section_content sec) m ov)" and "ct = trim x"
    unfolding section_chunks_def by auto
  with sec ct show ?thesis unfolding m_def ov_def by blast
qed

lemma chunkText_bound:
  assumes "longest_word s \<le> (case maxChunkSize opts of None \<Rightarrow> DEFAULT_maxChunkSize | Some m \<Rightarrow> m)"
    and "c \<in> set (chunkText s opts)"
  shows "length (content c)
           \<le> (case maxChunkSize opts of None \<Rightarrow> DEFAULT_maxChunkSize | Some m \<Rightarrow> m)
             + (case overlapSize opts of None \<Rightarrow> DEFAULT_overlapSize | Some v \<Rightarrow> v) + 7"
proof -
  define m where "m = (case maxChunkSize opts of None \<Rightarrow> DEFAULT_maxChunkSize | Some m \<Rightarrow> m)"
  define ov where "ov = (case overlapSize opts of None \<Rightarrow> DEFAULT_overlapSize | Some v \<Rightarrow> v)"
  from chunkText_contents [OF assms(2)] obtain sec x
    where sec: "sec \<in> set (splitBySections s)"
      and x: "x \<in> set (chunkSection (section_content sec) m ov)" and c: "content c = trim x"
    unfolding m_def ov_def by blast
  have "longest_word (section_content sec) \<le> m"
    using longest_word_sublist [OF splitBySections_sublist [OF sec] ] assms(1)
    unfolding m_def by simp
  from chunkSection_bound [OF this, of ov] x have "length x \<le> m + ov + 7" by blast
  with length_trim [of x] c show ?thesis unfolding m_def ov_def by simp
qed

lemma chunk_examples:
  "map (\<lambda>c. length (content c))
     (chunkText (''aaaaaab cc'' @ [CHR 10, CHR 10] @ ''dddddddddd'')
        \<lparr>maxChunkSize = Some 10, overlapSize = Some 4\<rparr>) = [10, 19]
   \<and> map content
     (chunkText (''aaaaaab cc'' @ [CHR 10, CHR 10] @ ''dddddddddd'')
        \<lparr>maxChunkSize = Some 10, overlapSize = Some 4\<rparr>) = [''aaaaaab cc'', ''cc [...] dddddddddd'']
   \<and> map (\<lambda>c. length (content c))
     (chunkText ''aaaaaaaaaaaaaaaaaaaa'' \<lparr>maxChunkSize = Some 10, overlapSize = Some 4\<rparr>) = [0, 20]
   \<and> longest_word (''aaaaaab cc'' @ [CHR 10, CHR 10] @ ''dddddddddd'') = 10"
  by code_simp

text \<open>
  C4, as the specification states it, fails, in two ways. With \<open>maxChunkSize = 10\<close> and
  \<open>overlapSize = 4\<close>, a second paragraph of ten characters comes out as a chunk of 19
  characters, more than 10 + 4: the overlap prefix \<open>cc\<close> brings the continuation
  marker of seven characters with it. And a single word of twenty characters is never
  split: it comes out as a chunk of twenty characters.
\<close>

theorem chunk_size_counterexample:
  "map (\<lambda>c. length (content c))
     (chunkText (''aaaaaab cc'' @ [CHR 10, CHR 10] @ ''dddddddddd'')
        \<lparr>maxChunkSize = Some 10, overlapSize = Some 4\<rparr>) = [10, 19]
   \<and> map (\<lambda>c. length (content c))
     (chunkText ''aaaaaaaaaaaaaaaaaaaa'' \<lparr>maxChunkSize = Some 10, overlapSize = Some 4\<rparr>) = [0, 20]
   \<and> \<not> (19::nat) \<le> 10 + 4 \<and> \<not> (20::nat) \<le> 10 + 4"
  using chunk_examples by simp

text \<open>
  C4, amended. For every input text none of whose words (runs of characters other than
  white space) is longer than \<open>maxChunkSize\<close>, and for every value of the options, every
  chunk the chunker produces has at most \<open>maxChunkSize + overlapSize + 7\<close> characters:
  paragraphs are joined with a separator of two characters that the size check does not
  count, and the overlap prefix comes with a continuation marker of seven characters in
  place of at least two characters of the overlap window.
\<close>

theorem chunk_size_bound:
  assumes "longest_word s \<le> (case maxChunkSize opts of None \<Rightarrow> DEFAULT_maxChunkSize | Some m \<Rightarrow> m)"
  shows "\<forall>c \<in> set (chunkText s opts).
           length (content c)
             \<le> (case maxChunkSize opts of None \<Rightarrow> DEFAULT_maxChunkSize | Some m \<Rightarrow> m)
               + (case overlapSize opts of None \<Rightarrow> DEFAULT_overlapSize | Some v \<Rightarrow> v) + 7"
  using chunkText_bound [OF assms] by blast

theorem chunk_size_bound_witness:
  "longest_word (''aaaaaab cc'' @ [CHR 10, CHR 10] @ ''dddddddddd'') \<le> 10
   \<and> map content
        (chunkText (''aaaaaab cc'' @ [CHR 10, CHR 10] @ ''dddddddddd'')
           \<lparr>maxChunkSize = Some 10, overlapSize = Some 4\<rparr>) = [''aaaaaab cc'', ''cc [...] dddddddddd'']
   \<and> list_all (\<lambda>c. length (content c) \<le> 10 + 4 + 7)
        (chunkText (''aaaaaab cc'' @ [CHR 10, CHR 10] @ ''dddddddddd'')
           \<lparr>maxChunkSize = Some 10, overlapSize = Some 4\<rparr>)"
  using chunk_size_bound [of "''aaaaaab cc'' @ [CHR 10, CHR 10] @ ''dddddddddd''"
      "\<lparr>maxChunkSize = Some 10, overlapSize = Some 4\<rparr>"]
    chunk_examples
  by (simp add: list_all_iff)

end
